theory Spec2Isabelle
  imports Complex_Main
begin

section \<open>Shop statistics controller: data model\<close>

text \<open>
  The controller \<^verbatim>\<open>shopStatisticController.js\<close> answers five read-only reports by
  running MongoDB aggregation pipelines over the order collection. The embedding keeps
  one HOL function per pipeline stage and one per handler.

  Modelling decisions, fixed here once:
  \<^item> Amounts held by the store, and the sums and counters the store computes, are exact
    numbers (\<open>rat\<close> and \<open>nat\<close>). The arithmetic of the helper
    \<^verbatim>\<open>calculatePercentageDiff\<close>, which runs in JavaScript, is IEEE 754 double
    arithmetic (see the section on the helper).
  \<^item> Instants are milliseconds since the epoch (\<open>int\<close>), object identifiers are \<open>nat\<close>.
  \<^item> A collection is the list of its documents in storage order.
  \<^item> \<^verbatim>\<open>$group\<close> emits its groups in order of first occurrence of the key and
    \<^verbatim>\<open>$sort\<close> is stable; MongoDB leaves both orders open.
  \<^item> The store is a snapshot that always answers, so the handlers' \<^verbatim>\<open>catch\<close> branch
    (status 500) is never taken by the model.
\<close>

type_synonym oid = nat
type_synonym instant = int

text \<open>
  Modelled from the spec: the document schemas (\<^verbatim>\<open>models/Order\<close>, \<^verbatim>\<open>models/Shop\<close>,
  \<^verbatim>\<open>models/Product\<close>, the category and user collections) are not part of the sources;
  the records below carry the fields the pipelines read, as listed in the data model
  of the specification.
\<close>

record item =
  product_id :: oid
  name :: string
  total_price_ttc :: rat

record order =
  shop_id :: oid
  buyer_id :: oid
  created_at :: instant
  status :: string
  amounts_total :: rat
  items :: "item list"

record product =
  p_id :: oid
  category_id :: "oid option"

record category =
  c_id :: oid
  c_name :: string

record profile =
  firstname :: string
  lastname :: string
  email :: string

record user =
  u_id :: oid
  profile :: profile

record shop =
  s_id :: oid
  avg_rating :: rat
  count_rating :: nat

record db =
  orders :: "order list"
  products :: "product list"
  categoryproducts :: "category list"
  users :: "user list"
  shops :: "shop list"

section \<open>Result documents\<close>

text \<open>
  Every grouped document carries \<^verbatim>\<open>totalAmount\<close>; the records extend one base record
  so that the field keeps its name in all of them. \<open>key\<close> is the \<^verbatim>\<open>_id\<close> of a group.
\<close>

record amt =
  totalAmount :: rat

record 'k stat = amt +
  key :: 'k
  orderCount :: nat

record totals = amt +
  totalOrders :: nat

record orderSummary = totals +
  pendingOrders :: nat
  confirmedOrders :: nat

record clientRow = "oid stat" +
  buyer :: profile

record topClients =
  topByCount :: "clientRow list"
  topByAmount :: "clientRow list"

record productRow = "oid stat" +
  productName :: string

record categoryRow = "oid option stat" +
  categoryName :: string

record globalStats = totals +
  ordersDiff :: rat
  amountDiff :: rat
  avgRating :: rat
  countRating :: nat
  totalCustomers :: nat
  customersDiff :: rat

datatype 'a response = Status200 'a | Status400 string | Status500 string

fun isClientError :: "'a response \<Rightarrow> bool" where
  "isClientError (Status400 m) = True"
| "isClientError (Status200 v) = False"
| "isClientError (Status500 m) = False"

record request =
  user_shop_id :: "oid option"
  startDate :: "string option"
  endDate :: "string option"
  year :: "string option"

text \<open>
  The runtime's \<^verbatim>\<open>Date\<close>: \<open>newDate\<close> is what \<^verbatim>\<open>new Date(string)\<close> denotes in a
  query, \<open>setHoursEnd\<close> is \<^verbatim>\<open>setHours(23, 59, 59, 999)\<close>, which depends on the
  server's time zone. Both are parameters of the handlers.
\<close>

record runtime =
  newDate :: "string \<Rightarrow> instant"
  setHoursEnd :: "instant \<Rightarrow> instant"

section \<open>The percentage helper\<close>

text \<open>
  A JavaScript number is an IEEE 754 binary64 value. A finite double is a rational
  number, and an arithmetic operation (or \<^verbatim>\<open>parseFloat\<close>) returns the double nearest
  to its exact result: 53 significant bits, a tie going to the even significand.
  \<open>toDouble x\<close> is that double. The exponent range is not bounded in the model: where
  JavaScript gives \<^verbatim>\<open>Infinity\<close> (beyond about 1.8e308) or a subnormal (below about
  2.2e-308 in magnitude) the model keeps 53 bits, and NaN and the infinities are not
  values of the model.
\<close>

text \<open>The number of binary digits of a natural number.\<close>

fun bitlen :: "nat \<Rightarrow> nat" where
  "bitlen n = (if n = 0 then 0 else Suc (bitlen (n div 2)))"

declare bitlen.simps [simp del]

definition pow2 :: "int \<Rightarrow> rat" where
  "pow2 e = power_int 2 e"

text \<open>The binary exponent of a non-zero number: \<open>pow2 e \<le> \<bar>x\<bar> < pow2 (e + 1)\<close>.\<close>

definition exponentOf :: "rat \<Rightarrow> int" where
  "exponentOf x =
     (if 1 \<le> \<bar>x\<bar> then int (bitlen (nat \<lfloor>\<bar>x\<bar>\<rfloor>)) - 1
      else - int (bitlen (nat (\<lceil>1 / \<bar>x\<bar>\<rceil> - 1))))"

text \<open>The nearest integer, the even one of two.\<close>

definition roundHalfEven :: "rat \<Rightarrow> int" where
  "roundHalfEven r =
     (let f = \<lfloor>r\<rfloor>; d = r - of_int f
      in if d < 1 / 2 then f else if 1 / 2 < d then f + 1 else if even f then f else f + 1)"

definition toDouble :: "rat \<Rightarrow> rat" where
  "toDouble x =
     (if x = 0 then 0
      else (let u = pow2 (exponentOf x - 52)
            in sgn x * of_int (roundHalfEven (\<bar>x\<bar> / u)) * u))"

text \<open>
  \<^verbatim>\<open>Number.prototype.toFixed(2)\<close>, as the decimal number its string denotes: from
  1e21 on the number itself (the string is then the shortest one that reads back as the
  number); below, the magnitude is rounded to the nearest multiple of 1/100, the larger
  one of two, and the sign is put back.
\<close>

definition toFixed2 :: "rat \<Rightarrow> rat" where
  "toFixed2 x =
     (if 10 ^ 21 \<le> \<bar>x\<bar> then x
      else sgn x * of_int \<lfloor>\<bar>x\<bar> * 100 + 1 / 2\<rfloor> / 100)"

text \<open>
  The expression \<^verbatim>\<open>(current - previous) / previous * 100\<close> on two doubles, each
  operation rounded.
\<close>

definition percentage :: "rat \<Rightarrow> rat \<Rightarrow> rat" where
  "percentage c p = toDouble (toDouble (toDouble (c - p) / p) * 100)"

text \<open>
  The helper. Its arguments are JavaScript numbers, so an exact argument is read as the
  double nearest to it; \<^verbatim>\<open>parseFloat\<close> of the \<^verbatim>\<open>toFixed\<close> string is the double
  nearest to the decimal number.
\<close>

definition calculatePercentageDiff :: "rat \<Rightarrow> rat \<Rightarrow> rat" where
  "calculatePercentageDiff current previous =
     (let c = toDouble current; p = toDouble previous
      in if p = 0 then (if c > 0 then 100 else 0)
         else toDouble (toFixed2 (percentage c p)))"

section \<open>Aggregation stages\<close>

text \<open>First occurrences of the values of a list, in order.\<close>

fun uniq :: "'a list \<Rightarrow> 'a list" where
  "uniq [] = []"
| "uniq (x # xs) = x # removeAll x (uniq xs)"

text \<open>
  \<^verbatim>\<open>$group\<close> with \<^verbatim>\<open>_id: <expression>\<close>: one group per distinct value of the
  expression, holding the documents with that value in pipeline order.
\<close>

definition group_by :: "('a \<Rightarrow> 'k) \<Rightarrow> 'a list \<Rightarrow> ('k \<times> 'a list) list" where
  "group_by f docs = map (\<lambda>k. (k, filter (\<lambda>d. f d = k) docs)) (uniq (map f docs))"

text \<open>
  \<^verbatim>\<open>$group\<close> with \<^verbatim>\<open>_id: null\<close>, \<^verbatim>\<open>totalOrders: {$sum: 1}\<close> and
  \<^verbatim>\<open>totalAmount: {$sum: "$amounts.total"}\<close>: no document in, no document out.
\<close>

definition group_null :: "order list \<Rightarrow> totals list" where
  "group_null docs =
     (if docs = [] then []
      else [\<lparr>totalAmount = sum_list (map amounts_total docs), totalOrders = length docs\<rparr>])"

text \<open>\<^verbatim>\<open>$unwind: "$items"\<close>: one document per line item; an order without items vanishes.\<close>

definition unwind_items :: "order list \<Rightarrow> (order \<times> item) list" where
  "unwind_items docs = concat (map (\<lambda>od. map (Pair od) (items od)) docs)"

text \<open>
  \<^verbatim>\<open>$lookup\<close> followed by \<^verbatim>\<open>$unwind\<close> of the joined array: one document per
  matching foreign document, none when nothing matches.
\<close>

definition lookup_unwind ::
  "('a \<Rightarrow> 'k) \<Rightarrow> ('b \<Rightarrow> 'k) \<Rightarrow> 'b list \<Rightarrow> 'a list \<Rightarrow> ('a \<times> 'b) list" where
  "lookup_unwind localField foreignField coll docs =
     concat (map (\<lambda>d. map (Pair d) (filter (\<lambda>f. foreignField f = localField d) coll)) docs)"

text \<open>
  The same with \<^verbatim>\<open>preserveNullAndEmptyArrays: true\<close>: a document without a match
  is kept, with the joined field missing. A null local field matches nothing, as no
  document of the foreign collection has a null \<^verbatim>\<open>_id\<close>.
\<close>

definition lookup_unwind_preserve ::
  "('a \<Rightarrow> 'k option) \<Rightarrow> ('b \<Rightarrow> 'k) \<Rightarrow> 'b list \<Rightarrow> 'a list \<Rightarrow> ('a \<times> 'b option) list" where
  "lookup_unwind_preserve localField foreignField coll docs =
     concat (map (\<lambda>d.
       (case filter (\<lambda>f. Some (foreignField f) = localField d) coll of
          [] \<Rightarrow> [(d, None)]
        | f # fs \<Rightarrow> map (\<lambda>f'. (d, Some f')) (f # fs))) docs)"

text \<open>The \<^verbatim>\<open>$match\<close> on the shop and on \<^verbatim>\<open>created_at: {$gte: start, $lte: end}\<close>.\<close>

definition inRange :: "oid \<Rightarrow> instant \<Rightarrow> instant \<Rightarrow> order \<Rightarrow> bool" where
  "inRange shopId start endD od =
     (shop_id od = shopId \<and> start \<le> created_at od \<and> created_at od \<le> endD)"

text \<open>A query parameter that passes the guard \<^verbatim>\<open>if (!param)\<close>: present and not empty.\<close>

definition present :: "string option \<Rightarrow> string option" where
  "present p = (case p of None \<Rightarrow> None | Some [] \<Rightarrow> None | Some (c # cs) \<Rightarrow> Some (c # cs))"

text \<open>\<^verbatim>\<open>value || 0\<close> on a counter that may be missing.\<close>

definition orZero :: "nat option \<Rightarrow> nat" where
  "orZero v = (case v of None \<Rightarrow> 0 | Some n \<Rightarrow> n)"

section \<open>Report 1: order summary\<close>

definition statusBreakdown :: "order list \<Rightarrow> (string \<times> nat) list" where
  "statusBreakdown matched = map (\<lambda>(k, g). (k, length g)) (group_by status matched)"

text \<open>\<^verbatim>\<open>statusBreakdown.forEach(s => { statusMap[s._id] = s.count; })\<close>\<close>

definition statusMap :: "(string \<times> nat) list \<Rightarrow> (string \<rightharpoonup> nat)" where
  "statusMap breakdown = fold (\<lambda>(k, c) m. m(k \<mapsto> c)) breakdown Map.empty"

definition getShopOrderSummary :: "runtime \<Rightarrow> db \<Rightarrow> request \<Rightarrow> orderSummary response" where
  "getShopOrderSummary rt d req =
     (case user_shop_id req of
        None \<Rightarrow> Status400 ''No shop linked to this account''
      | Some shopId \<Rightarrow>
          (case (present (startDate req), present (endDate req)) of
             (Some sd, Some ed) \<Rightarrow>
               (let start = newDate rt sd;
                    endD = setHoursEnd rt (newDate rt ed);
                    matched = filter (inRange shopId start endD) (orders d);
                    summary = group_null matched;
                    sm = statusMap (statusBreakdown matched)
                in Status200
                     \<lparr>totalAmount = (case summary of [] \<Rightarrow> 0 | s # _ \<Rightarrow> totalAmount s),
                      totalOrders = (case summary of [] \<Rightarrow> 0 | s # _ \<Rightarrow> totalOrders s),
                      pendingOrders = orZero (sm ''pending''),
                      confirmedOrders = orZero (sm ''confirmed'')\<rparr>)
           | _ \<Rightarrow> Status400 ''startDate and endDate are required''))"

section \<open>Report 2: top clients\<close>

definition matchStage :: "oid \<Rightarrow> instant \<Rightarrow> instant \<Rightarrow> order \<Rightarrow> bool" where
  "matchStage shopId start endD od =
     (shop_id od = shopId
      \<and> status od \<in> set [''confirmed'', ''shipped'', ''delivered'']
      \<and> start \<le> created_at od \<and> created_at od \<le> endD)"

definition groupByBuyer :: "order list \<Rightarrow> oid stat list" where
  "groupByBuyer docs =
     map (\<lambda>(k, g). \<lparr>totalAmount = sum_list (map amounts_total g), key = k,
                     orderCount = length g\<rparr>)
       (group_by buyer_id docs)"

text \<open>The \<^verbatim>\<open>$lookup\<close> into users, the \<^verbatim>\<open>$unwind\<close> and the \<^verbatim>\<open>$project\<close>.\<close>

definition joinUsers :: "user list \<Rightarrow> oid stat list \<Rightarrow> clientRow list" where
  "joinUsers us rows =
     map (\<lambda>(r, u). \<lparr>totalAmount = totalAmount r, key = key r, orderCount = orderCount r,
                     buyer = profile u\<rparr>)
       (lookup_unwind key u_id us rows)"

definition topByCountPipeline :: "db \<Rightarrow> oid \<Rightarrow> instant \<Rightarrow> instant \<Rightarrow> clientRow list" where
  "topByCountPipeline d shopId start endD =
     joinUsers (users d)
       (take 5 (sort_key (\<lambda>r. - int (orderCount r))
          (groupByBuyer (filter (matchStage shopId start endD) (orders d)))))"

definition topByAmountPipeline :: "db \<Rightarrow> oid \<Rightarrow> instant \<Rightarrow> instant \<Rightarrow> clientRow list" where
  "topByAmountPipeline d shopId start endD =
     joinUsers (users d)
       (take 5 (sort_key (\<lambda>r. - totalAmount r)
          (groupByBuyer (filter (matchStage shopId start endD) (orders d)))))"

definition getShopTopClients :: "runtime \<Rightarrow> db \<Rightarrow> request \<Rightarrow> topClients response" where
  "getShopTopClients rt d req =
     (case user_shop_id req of
        None \<Rightarrow> Status400 ''No shop linked to this account''
      | Some shopId \<Rightarrow>
          (case (present (startDate req), present (endDate req)) of
             (Some sd, Some ed) \<Rightarrow>
               (let start = newDate rt sd;
                    endD = setHoursEnd rt (newDate rt ed)
                in Status200
                     \<lparr>topByCount = topByCountPipeline d shopId start endD,
                      topByAmount = topByAmountPipeline d shopId start endD\<rparr>)
           | _ \<Rightarrow> Status400 ''startDate and endDate are required''))"

section \<open>Reports 3 and 4: statistics per product and per category\<close>

definition startOfYear :: "runtime \<Rightarrow> string \<Rightarrow> instant" where
  "startOfYear rt y = newDate rt (y @ ''-01-01'')"

definition endOfYear :: "runtime \<Rightarrow> string \<Rightarrow> instant" where
  "endOfYear rt y = newDate rt (y @ ''-12-31T23:59:59.999Z'')"

definition productStatsPipeline :: "db \<Rightarrow> oid \<Rightarrow> instant \<Rightarrow> instant \<Rightarrow> productRow list" where
  "productStatsPipeline d shopId start endD =
     sort_key (\<lambda>r. - totalAmount r)
       (map (\<lambda>(k, g). \<lparr>totalAmount = sum_list (map (\<lambda>x. total_price_ttc (snd x)) g),
                       key = k, orderCount = length g,
                       productName = name (snd (hd g))\<rparr>)
          (group_by (\<lambda>x. product_id (snd x))
             (unwind_items (filter (inRange shopId start endD) (orders d)))))"

definition getShopProductStats :: "runtime \<Rightarrow> db \<Rightarrow> request \<Rightarrow> productRow list response" where
  "getShopProductStats rt d req =
     (case user_shop_id req of
        None \<Rightarrow> Status400 ''No shop linked to this account''
      | Some shopId \<Rightarrow>
          (case present (year req) of
             None \<Rightarrow> Status400 ''Year is required''
           | Some y \<Rightarrow>
               Status200 (productStatsPipeline d shopId (startOfYear rt y) (endOfYear rt y))))"

text \<open>The default name \<^verbatim>\<open>"Sans cat\<close>e\<^verbatim>\<open>gorie"\<close>; its accented e is two bytes in UTF-8.\<close>

definition sansCategorie :: string where
  "sansCategorie = ''Sans cat'' @ [char_of (195 :: nat), char_of (169 :: nat)] @ ''gorie''"

text \<open>The pipeline up to the second \<^verbatim>\<open>$unwind\<close>: line items joined to product and category.\<close>

definition categoryJoin ::
  "db \<Rightarrow> oid \<Rightarrow> instant \<Rightarrow> instant \<Rightarrow> (((order \<times> item) \<times> product) \<times> category option) list" where
  "categoryJoin d shopId start endD =
     lookup_unwind_preserve (\<lambda>x. category_id (snd x)) c_id (categoryproducts d)
       (lookup_unwind (\<lambda>x. product_id (snd x)) p_id (products d)
          (unwind_items (filter (inRange shopId start endD) (orders d))))"

definition categoryStatsPipeline :: "db \<Rightarrow> oid \<Rightarrow> instant \<Rightarrow> instant \<Rightarrow> categoryRow list" where
  "categoryStatsPipeline d shopId start endD =
     sort_key (\<lambda>r. - totalAmount r)
       (map (\<lambda>(k, g).
              \<lparr>totalAmount = sum_list (map (\<lambda>x. total_price_ttc (snd (fst (fst x)))) g),
               key = k, orderCount = length g,
               categoryName = (case snd (hd g) of None \<Rightarrow> sansCategorie
                               | Some c \<Rightarrow> c_name c)\<rparr>)
          (group_by (\<lambda>x. category_id (snd (fst x))) (categoryJoin d shopId start endD)))"

text \<open>
  The same pipeline read as a function of the line items alone: after the first
  \<^verbatim>\<open>$unwind\<close> no stage reads a field of the order document. It is proved equal to
  \<open>categoryStatsPipeline\<close> below and is used to reason about it.
\<close>

definition categoryRows :: "item list \<Rightarrow> product list \<Rightarrow> category list \<Rightarrow> categoryRow list" where
  "categoryRows lines ps cs =
     sort_key (\<lambda>r. - totalAmount r)
       (map (\<lambda>(k, g).
              \<lparr>totalAmount = sum_list (map (\<lambda>x. total_price_ttc (fst (fst x))) g),
               key = k, orderCount = length g,
               categoryName = (case snd (hd g) of None \<Rightarrow> sansCategorie
                               | Some c \<Rightarrow> c_name c)\<rparr>)
          (group_by (\<lambda>x. category_id (snd (fst x)))
             (lookup_unwind_preserve (\<lambda>x. category_id (snd x)) c_id cs
                (lookup_unwind product_id p_id ps lines))))"

definition getShopCategoryStats :: "runtime \<Rightarrow> db \<Rightarrow> request \<Rightarrow> categoryRow list response" where
  "getShopCategoryStats rt d req =
     (case user_shop_id req of
        None \<Rightarrow> Status400 ''No shop linked to this account''
      | Some shopId \<Rightarrow>
          (case present (year req) of
             None \<Rightarrow> Status400 ''Year is required''
           | Some y \<Rightarrow>
               Status200 (categoryStatsPipeline d shopId (startOfYear rt y) (endOfYear rt y))))"

section \<open>Report 5: global statistics\<close>

text \<open>
  \<^verbatim>\<open>parseInt(year)\<close> without a radix: leading white space, a sign, an optional
  \<^verbatim>\<open>0x\<close> prefix, then the longest run of digits; \<open>None\<close> is NaN. The value is an
  exact integer.
\<close>

definition isWhite :: "char \<Rightarrow> bool" where
  "isWhite c = (of_char c \<in> set [9, 10, 11, 12, 13, 32 :: nat])"

definition digitOf :: "nat \<Rightarrow> char \<Rightarrow> nat option" where
  "digitOf R c =
     (let n = of_char c :: nat;
          v = (if 48 \<le> n \<and> n \<le> 57 then Some (n - 48)
               else if 97 \<le> n \<and> n \<le> 122 then Some (n - 87)
               else if 65 \<le> n \<and> n \<le> 90 then Some (n - 55)
               else None)
      in case v of None \<Rightarrow> None | Some k \<Rightarrow> if k < R then Some k else None)"

fun radixDigits :: "nat \<Rightarrow> string \<Rightarrow> nat list" where
  "radixDigits R [] = []"
| "radixDigits R (c # cs) =
     (case digitOf R c of None \<Rightarrow> [] | Some k \<Rightarrow> k # radixDigits R cs)"

definition parseInt :: "string \<Rightarrow> int option" where
  "parseInt s =
     (let S = dropWhile isWhite s;
          sign = (case S of [] \<Rightarrow> 1 | c # _ \<Rightarrow> if c = CHR ''-'' then - 1 else (1 :: int));
          S1 = (case S of [] \<Rightarrow> [] | c # cs \<Rightarrow> if c = CHR ''+'' \<or> c = CHR ''-'' then cs else S);
          hex = (case S1 of a # b # _ \<Rightarrow> a = CHR ''0'' \<and> (b = CHR ''x'' \<or> b = CHR ''X'')
                 | _ \<Rightarrow> False);
          R = (if hex then 16 else 10);
          Z = radixDigits R (if hex then drop 2 S1 else S1)
      in if Z = [] then None else Some (sign * int (fold (\<lambda>k acc. acc * R + k) Z 0)))"

fun showNat :: "nat \<Rightarrow> string" where
  "showNat n =
     (if n < 10 then [char_of (48 + n)]
      else showNat (n div 10) @ [char_of (48 + n mod 10)])"

declare showNat.simps [simp del]

text \<open>A number inside a template literal.\<close>

definition numberToString :: "int option \<Rightarrow> string" where
  "numberToString v =
     (case v of None \<Rightarrow> ''NaN''
      | Some n \<Rightarrow> if n < 0 then CHR ''-'' # showNat (nat (- n)) else showNat (nat n))"

definition prevYear :: "string \<Rightarrow> string" where
  "prevYear y = numberToString (map_option (\<lambda>n. n - 1) (parseInt y))"

text \<open>\<^verbatim>\<open>Order.distinct('buyer_id', filter)\<close>\<close>

definition distinctBuyers :: "db \<Rightarrow> oid \<Rightarrow> instant \<Rightarrow> instant \<Rightarrow> oid list" where
  "distinctBuyers d shopId start endD =
     uniq (map buyer_id (filter (inRange shopId start endD) (orders d)))"

definition findById :: "shop list \<Rightarrow> oid \<Rightarrow> shop option" where
  "findById coll i = find (\<lambda>s. s_id s = i) coll"

definition getShopGlobalStats :: "runtime \<Rightarrow> db \<Rightarrow> request \<Rightarrow> globalStats response" where
  "getShopGlobalStats rt d req =
     (case user_shop_id req of
        None \<Rightarrow> Status400 ''No shop linked to this account''
      | Some shopId \<Rightarrow>
          (case present (year req) of
             None \<Rightarrow> Status400 ''Year is required''
           | Some y \<Rightarrow>
               (let start = startOfYear rt y; endD = endOfYear rt y;
                    startPrev = startOfYear rt (prevYear y);
                    endPrev = endOfYear rt (prevYear y);
                    currentStats = group_null (filter (inRange shopId start endD) (orders d));
                    prevStats = group_null (filter (inRange shopId startPrev endPrev) (orders d));
                    currentCustomers = distinctBuyers d shopId start endD;
                    prevCustomers = distinctBuyers d shopId startPrev endPrev;
                    shopData = findById (shops d) shopId;
                    tOrders = (case currentStats of [] \<Rightarrow> 0 | s # _ \<Rightarrow> totalOrders s);
                    tAmount = (case currentStats of [] \<Rightarrow> 0 | s # _ \<Rightarrow> totalAmount s);
                    tOrdersPrev = (case prevStats of [] \<Rightarrow> 0 | s # _ \<Rightarrow> totalOrders s);
                    tAmountPrev = (case prevStats of [] \<Rightarrow> 0 | s # _ \<Rightarrow> totalAmount s);
                    tCustomers = length currentCustomers;
                    tCustomersPrev = length prevCustomers
                in Status200
                     \<lparr>totalAmount = tAmount,
                      totalOrders = tOrders,
                      ordersDiff = calculatePercentageDiff (of_nat tOrders) (of_nat tOrdersPrev),
                      amountDiff = calculatePercentageDiff tAmount tAmountPrev,
                      avgRating = (case shopData of None \<Rightarrow> 0 | Some s \<Rightarrow> avg_rating s),
                      countRating = (case shopData of None \<Rightarrow> 0 | Some s \<Rightarrow> count_rating s),
                      totalCustomers = tCustomers,
                      customersDiff =
                        calculatePercentageDiff (of_nat tCustomers) (of_nat tCustomersPrev)\<rparr>)))"

section \<open>Sample data\<close>

text \<open>
  A runtime whose \<open>newDate\<close> knows the date strings of the examples (UTC instants, 0 for
  any other string) and whose server clock is UTC, and a small marketplace: two shops,
  seven orders over 2023 and 2024, two products without category (101, 105), two whose
  category record is gone (102, 104), a line item whose product record is gone (103),
  and a buyer without user record (12).
\<close>

definition sampleDate :: "string \<Rightarrow> instant" where
  "sampleDate s =
     (case map_of
        [(''2022-01-01'', 1640995200000), (''2022-12-31T23:59:59.999Z'', 1672531199999),
         (''2023-01-01'', 1672531200000), (''2023-12-31T23:59:59.999Z'', 1704067199999),
         (''2024-01-01'', 1704067200000), (''2024-12-31'', 1735603200000),
         (''2024-12-31T23:59:59.999Z'', 1735689599999),
         (''2025-01-01'', 1735689600000), (''2025-12-31'', 1767139200000),
         (''2025-12-31T23:59:59.999Z'', 1767225599999)] s of
        None \<Rightarrow> 0 | Some t \<Rightarrow> t)"

definition sampleRuntime :: runtime where
  "sampleRuntime =
     \<lparr>newDate = sampleDate, setHoursEnd = (\<lambda>t. t - t mod 86400000 + 86399999)\<rparr>"

definition sampleOrders :: "order list" where
  "sampleOrders =
     [\<lparr>shop_id = 1, buyer_id = 10, created_at = 1706745600000, status = ''pending'',
       amounts_total = 10,
       items = [\<lparr>product_id = 100, name = ''Old name'', total_price_ttc = 4\<rparr>,
                \<lparr>product_id = 101, name = ''Loose'', total_price_ttc = 6\<rparr>]\<rparr>,
      \<lparr>shop_id = 1, buyer_id = 10, created_at = 1709251200000, status = ''confirmed'',
       amounts_total = 20,
       items = [\<lparr>product_id = 100, name = ''New name'', total_price_ttc = 15\<rparr>,
                \<lparr>product_id = 103, name = ''Ghost'', total_price_ttc = 5\<rparr>]\<rparr>,
      \<lparr>shop_id = 1, buyer_id = 11, created_at = 1711929600000, status = ''confirmed'',
       amounts_total = 30,
       items = [\<lparr>product_id = 102, name = ''Dangling'', total_price_ttc = 30\<rparr>,
                \<lparr>product_id = 105, name = ''Odd'', total_price_ttc = 2\<rparr>]\<rparr>,
      \<lparr>shop_id = 2, buyer_id = 11, created_at = 1714521600000, status = ''confirmed'',
       amounts_total = 70,
       items = [\<lparr>product_id = 100, name = ''Other shop'', total_price_ttc = 70\<rparr>]\<rparr>,
      \<lparr>shop_id = 1, buyer_id = 10, created_at = 1682899200000, status = ''delivered'',
       amounts_total = 40,
       items = [\<lparr>product_id = 100, name = ''Older name'', total_price_ttc = 40\<rparr>]\<rparr>,
      \<lparr>shop_id = 1, buyer_id = 12, created_at = 1685577600000, status = ''shipped'',
       amounts_total = 50,
       items = [\<lparr>product_id = 101, name = ''Loose'', total_price_ttc = 50\<rparr>]\<rparr>,
      \<lparr>shop_id = 1, buyer_id = 12, created_at = 1688169600000, status = ''cancelled'',
       amounts_total = 5,
       items = [\<lparr>product_id = 104, name = ''Lost'', total_price_ttc = 5\<rparr>]\<rparr>]"

definition sampleDb :: db where
  "sampleDb =
     \<lparr>orders = sampleOrders,
      products = [\<lparr>p_id = 100, category_id = Some 500\<rparr>, \<lparr>p_id = 101, category_id = None\<rparr>,
                  \<lparr>p_id = 102, category_id = Some 999\<rparr>,
                  \<lparr>p_id = 104, category_id = Some 998\<rparr>,
                  \<lparr>p_id = 105, category_id = None\<rparr>],
      categoryproducts = [\<lparr>c_id = 500, c_name = ''Books''\<rparr>],
      users = [\<lparr>u_id = 10,
                profile = \<lparr>firstname = ''Alice'', lastname = ''A'', email = ''a@x.org''\<rparr>\<rparr>,
               \<lparr>u_id = 11,
                profile = \<lparr>firstname = ''Bob'', lastname = ''B'', email = ''b@x.org''\<rparr>\<rparr>],
      shops = [\<lparr>s_id = 1, avg_rating = 9 / 2, count_rating = 12\<rparr>,
               \<lparr>s_id = 2, avg_rating = 4, count_rating = 3\<rparr>]\<rparr>"

definition yearRequest :: "string \<Rightarrow> request" where
  "yearRequest y = \<lparr>user_shop_id = Some 1, startDate = None, endDate = None, year = Some y\<rparr>"

definition rangeRequest :: "string \<Rightarrow> string \<Rightarrow> request" where
  "rangeRequest a b =
     \<lparr>user_shop_id = Some 1, startDate = Some a, endDate = Some b, year = None\<rparr>"

text \<open>A shop whose only orders are five orders of buyer 10 in 2024.\<close>

definition orderAt :: "instant \<Rightarrow> order" where
  "orderAt t =
     \<lparr>shop_id = 1, buyer_id = 10, created_at = t, status = ''confirmed'', amounts_total = 8,
      items = []\<rparr>"

definition fiveOrdersDb :: db where
  "fiveOrdersDb =
     \<lparr>orders = map orderAt [1706745600000, 1709251200000, 1711929600000, 1714521600000,
                              1714521600001],
      products = [], categoryproducts = [], users = [], shops = []\<rparr>"

text \<open>
  A shop with seven buyers in February 2024; buyer 1 has two orders, buyer 6 has no user
  record.
\<close>

definition orderOf :: "oid \<Rightarrow> rat \<Rightarrow> order" where
  "orderOf b a =
     \<lparr>shop_id = 1, buyer_id = b, created_at = 1706745600000, status = ''delivered'',
      amounts_total = a, items = []\<rparr>"

definition userOf :: "oid \<Rightarrow> user" where
  "userOf b = \<lparr>u_id = b, profile = \<lparr>firstname = ''Buyer'', lastname = showNat b, email = []\<rparr>\<rparr>"

definition manyBuyersDb :: db where
  "manyBuyersDb =
     \<lparr>orders = [orderOf 1 10, orderOf 2 20, orderOf 3 30, orderOf 4 40, orderOf 5 50,
                orderOf 6 60, orderOf 7 70, orderOf 1 5],
      products = [], categoryproducts = [],
      users = map userOf [1, 2, 3, 4, 5, 7], shops = []\<rparr>"

section \<open>Facts about the stages\<close>

lemmas sample_defs = sampleDate_def sampleRuntime_def sampleOrders_def sampleDb_def
  orderAt_def fiveOrdersDb_def orderOf_def userOf_def manyBuyersDb_def
  yearRequest_def rangeRequest_def

lemma inRange_fun:
  "inRange shopId start endD =
     (\<lambda>od. shop_id od = shopId \<and> start \<le> created_at od \<and> created_at od \<le> endD)"
  by (rule ext) (simp add: inRange_def)

lemma set_uniq [simp]: "set (uniq xs) = set xs"
  by (induction xs) auto

lemma distinct_uniq [simp]: "distinct (uniq xs)"
  by (induction xs) (auto simp: distinct_removeAll)

lemma uniq_eq_Nil [simp]: "uniq xs = [] \<longleftrightarrow> xs = []"
  by (cases xs) auto

lemma length_uniq: "length (uniq xs) = card (set xs)"
  using distinct_card[of "uniq xs"] by simp

lemma in_grouped_rows:
  "r \<in> set (map (\<lambda>(k, g). F k g) (group_by f docs))
     \<longleftrightarrow> (\<exists>k \<in> f ` set docs. r = F k (filter (\<lambda>d. f d = k) docs))"
  by (auto simp: group_by_def)

lemma keys_grouped_rows:
  assumes "\<And>k g. sel (F k g) = k"
  shows "map sel (map (\<lambda>(k, g). F k g) (group_by f docs)) = uniq (map f docs)"
  by (simp add: group_by_def comp_def assms)

lemma filter_key_nonempty: "k \<in> f ` set docs \<Longrightarrow> filter (\<lambda>d. f d = k) docs \<noteq> []"
  by (auto simp: filter_empty_conv)

lemma find_hd_filter: "filter P xs \<noteq> [] \<Longrightarrow> find P xs = Some (hd (filter P xs))"
  by (induction xs) auto

lemma find_map_comp: "find P (map f xs) = map_option f (find (\<lambda>x. P (f x)) xs)"
  by (induction xs) auto

lemma sort_desc_sorted:
  fixes f :: "'a \<Rightarrow> 'b::linordered_idom"
  shows "sorted_wrt (\<lambda>a b. f b \<le> f a) (sort_key (\<lambda>r. - f r) xs)"
proof -
  have "sorted (map (\<lambda>r. - f r) (sort_key (\<lambda>r. - f r) xs))"
    by (rule sorted_sort_key)
  then show ?thesis by (simp add: sorted_map)
qed

lemma distinct_map_sort_key:
  "distinct (map g (sort_key f xs)) = distinct (map g xs)"
proof (induction xs)
  case Nil
  then show ?case by simp
next
  case (Cons x xs)
  have ins: "distinct (map g (insort_key f y ys)) = (g y \<notin> g ` set ys \<and> distinct (map g ys))"
    for y ys
    by (induction ys) (auto simp: set_insort_key)
  show ?case using Cons by (simp add: ins)
qed

lemma snd_unwind_items: "map snd (unwind_items docs) = concat (map items docs)"
  by (induction docs) (simp_all add: unwind_items_def comp_def)

lemma present_eq_Some: "present p = Some s \<longleftrightarrow> p = Some s \<and> s \<noteq> []"
  by (auto simp: present_def split: option.splits list.splits)

lemma present_eq_None: "present p = None \<longleftrightarrow> p = None \<or> p = Some []"
  by (auto simp: present_def split: option.splits list.splits)

lemma group_null_amount:
  "(case group_null docs of [] \<Rightarrow> 0 | s # _ \<Rightarrow> totalAmount s) = sum_list (map amounts_total docs)"
  by (simp add: group_null_def)

lemma group_null_orders:
  "(case group_null docs of [] \<Rightarrow> 0 | s # _ \<Rightarrow> totalOrders s) = length docs"
  by (simp add: group_null_def)

subsection \<open>Joins and sorted prefixes\<close>

lemma filter_key_distinct:
  "distinct (map ff coll) \<Longrightarrow>
     filter (\<lambda>f. ff f = k) coll = (case find (\<lambda>f. ff f = k) coll of None \<Rightarrow> [] | Some f \<Rightarrow> [f])"
proof (induction coll)
  case Nil
  then show ?case by simp
next
  case (Cons a coll)
  show ?case
  proof (cases "ff a = k")
    case True
    with Cons.prems have "k \<notin> ff ` set coll" by auto
    then have "filter (\<lambda>f. ff f = k) coll = []" by (auto simp: filter_empty_conv)
    with True show ?thesis by simp
  next
    case False
    with Cons show ?thesis by simp
  qed
qed

lemma find_Some_in: "find P xs = Some x \<Longrightarrow> x \<in> set xs \<and> P x"
  by (induction xs) (auto split: if_splits)

lemma in_lookup_unwind:
  "(x, f) \<in> set (lookup_unwind lf ff coll docs) \<longleftrightarrow> x \<in> set docs \<and> f \<in> set coll \<and> ff f = lf x"
  by (auto simp: lookup_unwind_def)

lemma fst_lookup_unwind:
  assumes "distinct (map ff coll)"
  shows "map fst (lookup_unwind lf ff coll docs) = filter (\<lambda>x. lf x \<in> ff ` set coll) docs"
proof (induction docs)
  case Nil
  then show ?case by (simp add: lookup_unwind_def)
next
  case (Cons x docs)
  have none: "find (\<lambda>f. ff f = lf x) coll = None \<longleftrightarrow> lf x \<notin> ff ` set coll"
    by (force simp: find_None_iff image_iff)
  have "map fst (map (Pair x) (filter (\<lambda>f. ff f = lf x) coll))
          = (if lf x \<in> ff ` set coll then [x] else [])"
  proof (cases "find (\<lambda>f. ff f = lf x) coll")
    case None
    with none show ?thesis by (simp add: filter_key_distinct[OF assms])
  next
    case (Some f)
    with none have "lf x \<in> ff ` set coll" by simp
    with Some show ?thesis by (simp add: filter_key_distinct[OF assms])
  qed
  with Cons show ?case by (simp add: lookup_unwind_def)
qed

lemma sorted_wrt_fields:
  assumes "map h xs = map h' ys" and "sorted_wrt (\<lambda>a b. R (h' a) (h' b)) ys"
  shows "sorted_wrt (\<lambda>a b. R (h a) (h b)) xs"
proof -
  have "sorted_wrt R (map h' ys)" using assms(2) by (simp add: sorted_wrt_map)
  then have "sorted_wrt R (map h xs)" by (simp add: assms(1))
  then show ?thesis by (simp add: sorted_wrt_map)
qed

lemma sorted_take_drop:
  assumes "sorted_wrt R xs" and "x \<in> set (take n xs)" and "y \<in> set (drop n xs)"
  shows "R x y"
proof -
  have "sorted_wrt R (take n xs @ drop n xs)" using assms(1) by simp
  then show ?thesis using assms(2,3) unfolding sorted_wrt_append by blast
qed

subsection \<open>The status map of the order summary\<close>

lemma fold_upd_lookup:
  "fold (\<lambda>(k, c) m. m(k \<mapsto> c)) xs m k =
     (case map_of (rev xs) k of None \<Rightarrow> m k | Some c \<Rightarrow> Some c)"
  by (induction xs arbitrary: m) (auto split: option.splits)

lemma map_of_graph:
  "map_of (map (\<lambda>k. (k, h k)) ks) k = (if k \<in> set ks then Some (h k) else None)"
  by (induction ks) auto

lemma statusMap_lookup:
  "statusMap (statusBreakdown docs) k =
     (if k \<in> status ` set docs then Some (length (filter (\<lambda>d. status d = k) docs)) else None)"
proof -
  have "rev (statusBreakdown docs) =
          map (\<lambda>k. (k, length (filter (\<lambda>d. status d = k) docs))) (rev (uniq (map status docs)))"
    by (simp add: statusBreakdown_def group_by_def rev_map)
  then show ?thesis
    by (simp add: statusMap_def fold_upd_lookup map_of_graph)
qed

lemma orZero_statusMap:
  "orZero (statusMap (statusBreakdown docs) k) = length (filter (\<lambda>d. status d = k) docs)"
proof (cases "k \<in> status ` set docs")
  case True
  then show ?thesis by (simp add: statusMap_lookup orZero_def)
next
  case False
  then have "filter (\<lambda>d. status d = k) docs = []"
    by (auto simp: filter_empty_conv)
  with False show ?thesis by (simp add: statusMap_lookup orZero_def)
qed

section \<open>Facts about double arithmetic\<close>

lemma bitlen_upper: "n < 2 ^ bitlen n"
proof (induction n rule: bitlen.induct)
  case (1 n)
  show ?case
  proof (cases "n = 0")
    case True
    then show ?thesis by (subst bitlen.simps) simp
  next
    case False
    with 1 have "n div 2 < 2 ^ bitlen (n div 2)" by simp
    then have "n < 2 * 2 ^ bitlen (n div 2)" by linarith
    with False show ?thesis by (subst bitlen.simps) simp
  qed
qed

lemma bitlen_lower: "0 < n \<Longrightarrow> 2 ^ (bitlen n - 1) \<le> n"
proof (induction n rule: bitlen.induct)
  case (1 n)
  then have n: "n \<noteq> 0" by simp
  show ?case
  proof (cases "n div 2 = 0")
    case True
    then have "bitlen (n div 2) = 0" by (subst bitlen.simps) simp
    with n have "bitlen n = 1" by (subst bitlen.simps) simp
    with 1 show ?thesis by simp
  next
    case False
    with 1 n have ih: "2 ^ (bitlen (n div 2) - 1) \<le> n div 2" by simp
    from False have "bitlen (n div 2) \<noteq> 0" by (subst bitlen.simps) simp
    then have "(2::nat) ^ bitlen (n div 2) = 2 * 2 ^ (bitlen (n div 2) - 1)"
      by (cases "bitlen (n div 2)") simp_all
    with ih have "2 ^ bitlen (n div 2) \<le> n" by linarith
    with n show ?thesis by (subst bitlen.simps) simp
  qed
qed

lemma bitlen_pos: "0 < n \<Longrightarrow> 0 < bitlen n"
  by (subst bitlen.simps) simp

lemma pow2_pos [simp]: "0 < pow2 e"
  by (simp add: pow2_def)

lemma pow2_not_le0 [simp]: "\<not> pow2 e \<le> 0"
  using pow2_pos[of e] by (simp only: not_le)

lemma pow2_not_less0 [simp]: "\<not> pow2 e < 0"
  using pow2_pos[of e] by (simp only: not_less less_imp_le)

lemma pow2_neq0 [simp]: "pow2 e \<noteq> 0"
  by (metis less_irrefl pow2_pos)

lemma abs_pow2 [simp]: "\<bar>pow2 e\<bar> = pow2 e"
  using pow2_pos[of e] by (simp only: abs_of_pos)

lemma pow2_add: "pow2 (a + b) = pow2 a * pow2 b"
  by (simp add: pow2_def power_int_add)

lemma pow2_nat: "pow2 (int n) = 2 ^ n"
  by (simp add: pow2_def)

lemma pow2_neg_nat: "pow2 (- int n) = 1 / 2 ^ n"
  by (simp add: pow2_def power_int_minus field_simps)


lemma pow2_le: "a \<le> b \<Longrightarrow> pow2 a \<le> pow2 b"
  unfolding pow2_def by (rule power_int_increasing) simp_all

lemma pow2_52: "pow2 e = 2 ^ 52 * pow2 (e - 52)"
  using pow2_add[of 52 "e - 52"] pow2_nat[of 52] by simp

lemma exponentOf_bounds:
  assumes "x \<noteq> 0"
  shows "pow2 (exponentOf x) \<le> \<bar>x\<bar>" and "\<bar>x\<bar> < pow2 (exponentOf x + 1)"
proof -
  have "pow2 (exponentOf x) \<le> \<bar>x\<bar> \<and> \<bar>x\<bar> < pow2 (exponentOf x + 1)"
  proof (cases "1 \<le> \<bar>x\<bar>")
    case True
    define m where "m = nat \<lfloor>\<bar>x\<bar>\<rfloor>"
    from True have fl: "1 \<le> \<lfloor>\<bar>x\<bar>\<rfloor>" by linarith
    then have m: "0 < m" "of_nat m = (of_int \<lfloor>\<bar>x\<bar>\<rfloor> :: rat)" by (simp_all add: m_def)
    have e: "exponentOf x = int (bitlen m) - 1" using True by (simp add: exponentOf_def m_def)
    from bitlen_pos[OF m(1)] have e': "exponentOf x = int (bitlen m - 1)"
      "exponentOf x + 1 = int (bitlen m)" by (simp_all add: e)
    have "(2::rat) ^ (bitlen m - 1) \<le> of_nat m"
      using bitlen_lower[OF m(1)] by (metis of_nat_le_iff of_nat_numeral of_nat_power)
    also have "\<dots> \<le> \<bar>x\<bar>" unfolding m(2) by (rule of_int_floor_le)
    finally have lo: "pow2 (exponentOf x) \<le> \<bar>x\<bar>" unfolding e'(1) pow2_nat .
    have "m + 1 \<le> 2 ^ bitlen m" using bitlen_upper[of m] by simp
    then have "(of_nat (m + 1) :: rat) \<le> 2 ^ bitlen m"
      by (metis of_nat_le_iff of_nat_numeral of_nat_power)
    moreover have "\<bar>x\<bar> < of_nat (m + 1)" using m(2) by simp linarith
    ultimately have "\<bar>x\<bar> < pow2 (exponentOf x + 1)" unfolding e'(2) pow2_nat by simp
    with lo show ?thesis by simp
  next
    case False
    define y where "y = 1 / \<bar>x\<bar>"
    from False assms have y: "1 < y" by (simp add: y_def)
    have x: "\<bar>x\<bar> = 1 / y" "0 < y" using assms by (simp_all add: y_def)
    define m where "m = nat (\<lceil>y\<rceil> - 1)"
    from y have c: "2 \<le> \<lceil>y\<rceil>" by linarith
    then have m: "0 < m" "(of_nat m :: rat) = of_int \<lceil>y\<rceil> - 1" by (simp_all add: m_def)
    have e: "exponentOf x = - int (bitlen m)" using False by (simp add: exponentOf_def m_def y_def)
    have "y \<le> of_nat m + 1" unfolding m(2) by simp
    also have "(of_nat m + 1 :: rat) = of_nat (m + 1)" by simp
    also have "(of_nat (m + 1) :: rat) \<le> 2 ^ bitlen m"
      using bitlen_upper[of m] by (metis Suc_eq_plus1 Suc_leI of_nat_le_iff of_nat_numeral of_nat_power)
    finally have "y \<le> 2 ^ bitlen m" .
    then have "1 / 2 ^ bitlen m \<le> 1 / y" using x(2) by (simp add: field_simps)
    then have lo: "pow2 (exponentOf x) \<le> \<bar>x\<bar>" unfolding e pow2_neg_nat x(1) .
    have "(2::rat) ^ (bitlen m - 1) \<le> of_nat m"
      using bitlen_lower[OF m(1)] by (metis of_nat_le_iff of_nat_numeral of_nat_power)
    also have "(of_nat m :: rat) < y" unfolding m(2) by linarith
    finally have "(2::rat) ^ (bitlen m - 1) < y" .
    then have "1 / y < 1 / 2 ^ (bitlen m - 1)" using x(2) by (simp add: field_simps)
    moreover from bitlen_pos[OF m(1)] have "exponentOf x + 1 = - int (bitlen m - 1)"
      by (simp add: e)
    ultimately have "\<bar>x\<bar> < pow2 (exponentOf x + 1)" by (simp add: x(1) pow2_neg_nat)
    with lo show ?thesis by simp
  qed
  then show "pow2 (exponentOf x) \<le> \<bar>x\<bar>" and "\<bar>x\<bar> < pow2 (exponentOf x + 1)" by simp_all
qed

lemma exponentOf_unique:
  assumes "pow2 e \<le> \<bar>z\<bar>" and "\<bar>z\<bar> < pow2 (e + 1)"
  shows "exponentOf z = e"
proof -
  from assms(1) have z: "z \<noteq> 0" using pow2_pos[of e] by auto
  note b = exponentOf_bounds[OF z]
  have "\<not> exponentOf z < e"
  proof
    assume "exponentOf z < e"
    then have "pow2 (exponentOf z + 1) \<le> pow2 e" by (intro pow2_le) simp
    with b(2) assms(1) show False by simp
  qed
  moreover have "\<not> e < exponentOf z"
  proof
    assume "e < exponentOf z"
    then have "pow2 (e + 1) \<le> pow2 (exponentOf z)" by (intro pow2_le) simp
    with b(1) assms(2) show False by simp
  qed
  ultimately show ?thesis by simp
qed

lemma roundHalfEven_int [simp]: "roundHalfEven (of_int n) = n"
  by (simp add: roundHalfEven_def)

lemma roundHalfEven_between:
  assumes "of_int a \<le> r" and "r \<le> of_int b"
  shows "a \<le> roundHalfEven r" and "roundHalfEven r \<le> b"
proof -
  have f: "a \<le> \<lfloor>r\<rfloor>" using assms(1) by (simp add: le_floor_iff)
  have "\<lfloor>r\<rfloor> \<le> roundHalfEven r" by (simp add: roundHalfEven_def Let_def)
  with f show "a \<le> roundHalfEven r" by simp
  show "roundHalfEven r \<le> b"
  proof (cases "r = of_int b")
    case True
    then show ?thesis by simp
  next
    case False
    with assms(2) have "r < of_int b" by simp
    then have "\<lfloor>r\<rfloor> < b" by (simp add: floor_less_iff)
    moreover have "roundHalfEven r \<le> \<lfloor>r\<rfloor> + 1" by (simp add: roundHalfEven_def Let_def)
    ultimately show ?thesis by simp
  qed
qed

lemma toDouble_repr:
  assumes "x \<noteq> 0"
  defines "u \<equiv> pow2 (exponentOf x - 52)"
  defines "n \<equiv> roundHalfEven (\<bar>x\<bar> / u)"
  shows "toDouble x = sgn x * of_int n * u" and "2 ^ 52 \<le> n" and "n \<le> 2 ^ 53"
proof -
  show "toDouble x = sgn x * of_int n * u"
    using assms(1) by (simp add: toDouble_def u_def n_def Let_def)
  have u: "0 < u" by (simp add: u_def)
  have p: "pow2 (exponentOf x) = 2 ^ 52 * u" "pow2 (exponentOf x + 1) = 2 ^ 53 * u"
    using pow2_52[of "exponentOf x"] pow2_add[of "exponentOf x" 1] pow2_nat[of 1]
    by (simp_all add: u_def)
  from exponentOf_bounds[OF assms(1)] have "2 ^ 52 * u \<le> \<bar>x\<bar>" "\<bar>x\<bar> < 2 ^ 53 * u"
    unfolding p by simp_all
  with u have "of_int (2 ^ 52) \<le> \<bar>x\<bar> / u" "\<bar>x\<bar> / u \<le> of_int (2 ^ 53)"
    by (simp_all add: field_simps)
  from roundHalfEven_between[OF this] show "2 ^ 52 \<le> n" and "n \<le> 2 ^ 53"
    by (simp_all add: n_def)
qed

lemma toDouble_zero_iff [simp]: "toDouble x = 0 \<longleftrightarrow> x = 0"
proof
  assume "toDouble x = 0"
  show "x = 0"
  proof (rule ccontr)
    assume x: "x \<noteq> 0"
    from toDouble_repr[OF x] \<open>toDouble x = 0\<close> x pow2_pos[of "exponentOf x - 52"]
    show False by (auto simp: sgn_if split: if_splits)
  qed
qed (simp add: toDouble_def)

lemma toDouble_minus: "toDouble (- x) = - toDouble x"
  by (simp add: toDouble_def exponentOf_def Let_def sgn_minus)

lemma toDouble_pos_iff [simp]: "0 < toDouble x \<longleftrightarrow> 0 < x"
proof (cases "x = 0")
  case True
  then show ?thesis by (simp add: toDouble_def)
next
  case False
  define m where "m = of_int (roundHalfEven (\<bar>x\<bar> / pow2 (exponentOf x - 52)))
                        * pow2 (exponentOf x - 52)"
  note r = toDouble_repr[OF False]
  have m: "0 < m" unfolding m_def using r(2) by (intro mult_pos_pos) simp_all
  have t: "toDouble x = sgn x * m" unfolding r(1) m_def by (simp add: mult.assoc)
  show ?thesis
  proof (cases "0 < x")
    case True
    with m show ?thesis by (simp add: t)
  next
    case neg: False
    with False have "x < 0" by simp
    with m show ?thesis by (simp add: t)
  qed
qed

lemma toDouble_of_repr:
  assumes n: "2 ^ 52 \<le> n" "n < 2 ^ 53" and s: "s = 1 \<or> s = - 1"
  shows "toDouble (s * of_int n * pow2 (e - 52)) = s * of_int n * pow2 (e - 52)"
proof -
  let ?u = "pow2 (e - 52)"
  let ?y = "s * of_int n * ?u"
  have u: "0 < ?u" by simp
  have npos: "(0::rat) < of_int n" using n(1) by simp
  have a: "\<bar>?y\<bar> = of_int n * ?u" using s npos u by (auto simp: abs_mult)
  have "2 ^ 52 * ?u \<le> of_int n * ?u" using n(1) u by simp
  moreover have "of_int n * ?u < 2 ^ 53 * ?u" using n(2) u by simp
  moreover have "pow2 e = 2 ^ 52 * ?u" by (rule pow2_52)
  moreover have "pow2 (e + 1) = 2 ^ 53 * ?u"
    using pow2_52[of e] pow2_add[of e 1] pow2_nat[of 1] by simp
  ultimately have e: "exponentOf ?y = e"
    by (intro exponentOf_unique) (simp_all add: a)
  have y: "?y \<noteq> 0" using s npos u by auto
  have sg: "sgn ?y = s" using s npos u by (auto simp: sgn_mult)
  have "\<bar>?y\<bar> / ?u = of_int n" using u by (simp add: a)
  then show ?thesis using y by (simp add: toDouble_def e sg Let_def)
qed

lemma toDouble_idem [simp]: "toDouble (toDouble x) = toDouble x"
proof (cases "x = 0")
  case True
  then show ?thesis by (simp add: toDouble_def)
next
  case False
  define e where "e = exponentOf x"
  define n where "n = roundHalfEven (\<bar>x\<bar> / pow2 (e - 52))"
  define s where "s = sgn x"
  from toDouble_repr[OF False] have r: "toDouble x = s * of_int n * pow2 (e - 52)"
    and n: "2 ^ 52 \<le> n" "n \<le> 2 ^ 53"
    by (simp_all add: e_def n_def s_def)
  have s: "s = 1 \<or> s = - 1" using False by (auto simp: s_def sgn_if)
  show ?thesis
  proof (cases "n = 2 ^ 53")
    case True
    have "pow2 (e + 1 - 52) = 2 * pow2 (e - 52)"
      using pow2_add[of "e - 52" 1] pow2_nat[of 1] by (simp add: algebra_simps)
    then have "toDouble x = s * of_int (2 ^ 52) * pow2 (e + 1 - 52)"
      unfolding r True by simp
    moreover have "toDouble (s * of_int (2 ^ 52) * pow2 (e + 1 - 52))
                     = s * of_int (2 ^ 52) * pow2 (e + 1 - 52)"
      by (rule toDouble_of_repr) (simp_all add: s)
    ultimately show ?thesis by simp
  next
    case False
    with n have "n < 2 ^ 53" by simp
    from toDouble_of_repr[OF n(1) this s] show ?thesis unfolding r .
  qed
qed







lemma diff_from_zero: "calculatePercentageDiff 0 p = (if p = 0 then 0 else - 100)"
proof (cases "p = 0")
  case True
  then show ?thesis by (simp add: calculatePercentageDiff_def toDouble_def)
next
  case False
  have c: "toDouble (- 1) = - 1" "toDouble (- 100) = - 100" "toFixed2 (- 100) = - 100"
    by code_simp+
  have "toDouble (0 - toDouble p) = - toDouble p" by (simp add: toDouble_minus)
  then have "percentage 0 (toDouble p) = - 100"
    using False by (simp add: percentage_def c)
  then show ?thesis
    using False by (simp add: calculatePercentageDiff_def Let_def c toDouble_def[of 0])
qed

section \<open>Properties of the percentage helper\<close>



section \<open>Order summary\<close>

text \<open>
  C5. For a request with a linked shop and both dates, the order summary is computed
  over the shop's orders created inside the resolved range: \<open>totalOrders\<close> is their
  number, \<open>totalAmount\<close> the sum of their \<open>amounts.total\<close>, \<open>pendingOrders\<close> and
  \<open>confirmedOrders\<close> the numbers of those with status pending and confirmed (0 when
  there is none). Three matching orders with statuses pending, confirmed, confirmed and
  amounts 10, 20, 30 give totalOrders 3, totalAmount 60, pendingOrders 1,
  confirmedOrders 2.
\<close>

theorem getShopOrderSummary_spec:
  fixes rt :: runtime and d :: db
  assumes "user_shop_id req = Some shopId"
    and "startDate req = Some sd" and "sd \<noteq> []"
    and "endDate req = Some ed" and "ed \<noteq> []"
  defines "matched \<equiv>
     filter (\<lambda>od. shop_id od = shopId \<and> newDate rt sd \<le> created_at od
                 \<and> created_at od \<le> setHoursEnd rt (newDate rt ed)) (orders d)"
  shows "getShopOrderSummary rt d req =
           Status200 \<lparr>totalAmount = sum_list (map amounts_total matched),
                      totalOrders = length matched,
                      pendingOrders = length (filter (\<lambda>od. status od = ''pending'') matched),
                      confirmedOrders = length (filter (\<lambda>od. status od = ''confirmed'') matched)\<rparr>
         \<and> (map status matched = [''pending'', ''confirmed'', ''confirmed'']
              \<and> map amounts_total matched = [10, 20, 30]
            \<longrightarrow> getShopOrderSummary rt d req =
                  Status200 \<lparr>totalAmount = 60, totalOrders = 3, pendingOrders = 1,
                             confirmedOrders = 2\<rparr>)"
proof -
  have p: "present (startDate req) = Some sd" "present (endDate req) = Some ed"
    using assms(1-5) by (simp_all add: present_eq_Some)
  have m: "filter (inRange shopId (newDate rt sd) (setHoursEnd rt (newDate rt ed))) (orders d)
             = matched"
    by (simp add: matched_def inRange_fun)
  have general: "getShopOrderSummary rt d req =
           Status200 \<lparr>totalAmount = sum_list (map amounts_total matched),
                      totalOrders = length matched,
                      pendingOrders = length (filter (\<lambda>od. status od = ''pending'') matched),
                      confirmedOrders = length (filter (\<lambda>od. status od = ''confirmed'') matched)\<rparr>"
    unfolding getShopOrderSummary_def Let_def
    by (simp add: assms(1) p m group_null_amount group_null_orders orZero_statusMap)
  have count: "length (filter (\<lambda>od. status od = k) matched)
                 = length (filter (\<lambda>s. s = k) (map status matched))" for k
    by (simp add: filter_map comp_def)
  have example: "getShopOrderSummary rt d req =
                  Status200 \<lparr>totalAmount = 60, totalOrders = 3, pendingOrders = 1,
                             confirmedOrders = 2\<rparr>"
    if st: "map status matched = [''pending'', ''confirmed'', ''confirmed'']"
      and am: "map amounts_total matched = [10, 20, 30]"
  proof -
    have "length matched = length (map status matched)" by simp
    then have len: "length matched = 3" unfolding st by simp
    show ?thesis unfolding general count st am len by simp
  qed
  show ?thesis
  proof (intro conjI impI)
    show "getShopOrderSummary rt d req =
           Status200 \<lparr>totalAmount = sum_list (map amounts_total matched),
                      totalOrders = length matched,
                      pendingOrders = length (filter (\<lambda>od. status od = ''pending'') matched),
                      confirmedOrders = length (filter (\<lambda>od. status od = ''confirmed'') matched)\<rparr>"
      by (rule general)
  next
    assume ex: "map status matched = [''pending'', ''confirmed'', ''confirmed'']
              \<and> map amounts_total matched = [10, 20, 30]"
    show "getShopOrderSummary rt d req =
                  Status200 \<lparr>totalAmount = 60, totalOrders = 3, pendingOrders = 1,
                             confirmedOrders = 2\<rparr>"
      by (rule example[OF conjunct1[OF ex] conjunct2[OF ex]])
  qed
qed

theorem getShopOrderSummary_spec_witness:
  "getShopOrderSummary sampleRuntime sampleDb (rangeRequest ''2024-01-01'' ''2024-12-31'') =
     Status200 \<lparr>totalAmount = 60, totalOrders = 3, pendingOrders = 1, confirmedOrders = 2\<rparr>
   \<and> getShopOrderSummary sampleRuntime sampleDb (rangeRequest ''2023-01-01'' ''2024-12-31'') =
     Status200 \<lparr>totalAmount = 155, totalOrders = 6, pendingOrders = 1, confirmedOrders = 2\<rparr>"
proof -
  have a: "user_shop_id (rangeRequest a b) = Some 1" "startDate (rangeRequest a b) = Some a"
    "endDate (rangeRequest a b) = Some b" for a b
    by (simp_all add: rangeRequest_def)
  have n: "''2024-01-01'' \<noteq> []" "''2023-01-01'' \<noteq> []" "''2024-12-31'' \<noteq> []" by simp_all
  show ?thesis
    using getShopOrderSummary_spec[OF a(1) a(2) n(1) a(3) n(3), of sampleRuntime sampleDb]
      getShopOrderSummary_spec[OF a(1) a(2) n(2) a(3) n(3), of sampleRuntime sampleDb]
    by (simp add: sampleDate_def sampleRuntime_def sampleOrders_def sampleDb_def)
qed

section \<open>Statistics per product\<close>

lemma productStats_rows:
  fixes d shopId start endD
  defines "lines \<equiv> concat (map items (filter (inRange shopId start endD) (orders d)))"
  defines "rows \<equiv> productStatsPipeline d shopId start endD"
  shows "distinct (map key rows)"
    and "key ` set rows = product_id ` set lines"
    and "sorted_wrt (\<lambda>a b. totalAmount b \<le> totalAmount a) rows"
    and "r \<in> set rows \<Longrightarrow>
           orderCount r = length (filter (\<lambda>i. product_id i = key r) lines)
           \<and> totalAmount r
               = sum_list (map total_price_ttc (filter (\<lambda>i. product_id i = key r) lines))
           \<and> (\<exists>i. find (\<lambda>i. product_id i = key r) lines = Some i \<and> productName r = name i)"
proof -
  define U where "U = unwind_items (filter (inRange shopId start endD) (orders d))"
  define F where "F = (\<lambda>(k :: oid) (g :: (order \<times> item) list).
     \<lparr>totalAmount = sum_list (map (\<lambda>x. total_price_ttc (snd x)) g), key = k,
      orderCount = length g, productName = name (snd (hd g))\<rparr>)"
  define G where "G = map (\<lambda>(k, g). F k g) (group_by (\<lambda>x. product_id (snd x)) U)"
  have rows: "rows = sort_key (\<lambda>r. - totalAmount r) G"
    by (simp add: rows_def productStatsPipeline_def G_def F_def U_def)
  have lines: "lines = map snd U"
    by (simp add: lines_def U_def snd_unwind_items)
  have keys: "map key G = uniq (map (\<lambda>x. product_id (snd x)) U)"
    unfolding G_def by (rule keys_grouped_rows) (simp add: F_def)
  show "distinct (map key rows)"
    by (simp add: rows distinct_map_sort_key keys)
  have "key ` set rows = set (map key G)" by (simp add: rows)
  also have "\<dots> = product_id ` set lines" by (simp add: keys lines image_image)
  finally show "key ` set rows = product_id ` set lines" .
  show "sorted_wrt (\<lambda>a b. totalAmount b \<le> totalAmount a) rows"
    unfolding rows by (rule sort_desc_sorted)
  show "orderCount r = length (filter (\<lambda>i. product_id i = key r) lines)
           \<and> totalAmount r
               = sum_list (map total_price_ttc (filter (\<lambda>i. product_id i = key r) lines))
           \<and> (\<exists>i. find (\<lambda>i. product_id i = key r) lines = Some i \<and> productName r = name i)"
    if "r \<in> set rows"
  proof -
    from that have "r \<in> set G" by (simp add: rows)
    then obtain k where k: "k \<in> (\<lambda>x. product_id (snd x)) ` set U"
      and r: "r = F k (filter (\<lambda>x. product_id (snd x) = k) U)"
      unfolding G_def in_grouped_rows by blast
    let ?g = "filter (\<lambda>x. product_id (snd x) = k) U"
    have kr: "key r = k" by (simp add: r F_def)
    have fl: "filter (\<lambda>i. product_id i = k) lines = map snd ?g"
      by (simp add: lines filter_map comp_def)
    have ne: "?g \<noteq> []" using k by (rule filter_key_nonempty)
    have "find (\<lambda>i. product_id i = k) lines = Some (snd (hd ?g))"
      by (simp add: lines find_map_comp find_hd_filter[OF ne])
    moreover have "productName r = name (snd (hd ?g))" by (simp add: r F_def)
    moreover have "orderCount r = length (filter (\<lambda>i. product_id i = k) lines)"
      by (simp add: fl r F_def)
    moreover have "totalAmount r
        = sum_list (map total_price_ttc (filter (\<lambda>i. product_id i = k) lines))"
      by (simp add: fl r F_def comp_def)
    ultimately show ?thesis by (simp add: kr)
  qed
qed

text \<open>
  C6. For a request with a linked shop and a year, the product report takes the line
  items of the shop's orders created inside the year window, one row per line item,
  and returns one row per product identifier among them. A row's \<open>orderCount\<close> is the
  number of line items of its product, its \<open>totalAmount\<close> the sum of their
  \<open>total_price_ttc\<close>, its \<open>productName\<close> the name stored in the first such line item
  (no product record is read). The rows are in descending order of \<open>totalAmount\<close>.
\<close>

theorem getShopProductStats_spec:
  fixes rt :: runtime and d :: db
  assumes "user_shop_id req = Some shopId" and "year req = Some y" and "y \<noteq> []"
  defines "lines \<equiv>
     concat (map items
       (filter (\<lambda>od. shop_id od = shopId \<and> startOfYear rt y \<le> created_at od
                    \<and> created_at od \<le> endOfYear rt y) (orders d)))"
  shows "\<exists>rows. getShopProductStats rt d req = Status200 rows
           \<and> distinct (map key rows)
           \<and> key ` set rows = product_id ` set lines
           \<and> (\<forall>r \<in> set rows.
                 orderCount r = length (filter (\<lambda>i. product_id i = key r) lines)
                 \<and> totalAmount r
                     = sum_list (map total_price_ttc (filter (\<lambda>i. product_id i = key r) lines))
                 \<and> (\<exists>i. find (\<lambda>i. product_id i = key r) lines = Some i
                          \<and> productName r = name i))
           \<and> sorted_wrt (\<lambda>a b. totalAmount b \<le> totalAmount a) rows"
proof -
  have p: "present (year req) = Some y"
    using assms(2,3) by (simp add: present_eq_Some)
  have l: "lines = concat (map items
             (filter (inRange shopId (startOfYear rt y) (endOfYear rt y)) (orders d)))"
    by (simp add: lines_def inRange_fun)
  have "getShopProductStats rt d req =
          Status200 (productStatsPipeline d shopId (startOfYear rt y) (endOfYear rt y))"
    by (simp add: getShopProductStats_def assms(1) p)
  then show ?thesis
    unfolding l
    using productStats_rows[where d = d and shopId = shopId and start = "startOfYear rt y"
        and endD = "endOfYear rt y"]
    by blast
qed

theorem getShopProductStats_spec_witness:
  "\<exists>rows. getShopProductStats sampleRuntime sampleDb (yearRequest ''2024'') = Status200 rows
      \<and> key ` set rows = {100, 101, 102, 103, 105}
      \<and> (\<forall>r \<in> set rows. key r = 100 \<longrightarrow>
            orderCount r = 2 \<and> totalAmount r = 19 \<and> productName r = ''Old name'')"
proof -
  define L where "L =
       [\<lparr>product_id = 100, name = ''Old name'', total_price_ttc = 4\<rparr>,
        \<lparr>product_id = 101, name = ''Loose'', total_price_ttc = 6\<rparr>,
        \<lparr>product_id = 100, name = ''New name'', total_price_ttc = 15\<rparr>,
        \<lparr>product_id = 103, name = ''Ghost'', total_price_ttc = 5\<rparr>,
        \<lparr>product_id = 102, name = ''Dangling'', total_price_ttc = 30\<rparr>,
        \<lparr>product_id = 105, name = ''Odd'', total_price_ttc = 2\<rparr>]"
  have a: "user_shop_id (yearRequest ''2024'') = Some 1"
    "year (yearRequest ''2024'') = Some ''2024''" "''2024'' \<noteq> []"
    by (simp_all add: yearRequest_def)
  have "concat (map items
       (filter (\<lambda>od. shop_id od = 1 \<and> startOfYear sampleRuntime ''2024'' \<le> created_at od
                    \<and> created_at od \<le> endOfYear sampleRuntime ''2024'') (orders sampleDb)))
     = L"
    by (simp add: sample_defs startOfYear_def endOfYear_def L_def)
  with getShopProductStats_spec[OF a, of sampleRuntime sampleDb]
  obtain rows where
    r: "getShopProductStats sampleRuntime sampleDb (yearRequest ''2024'') = Status200 rows"
    and k: "key ` set rows = product_id ` set L"
    and c: "\<forall>r \<in> set rows.
                 orderCount r = length (filter (\<lambda>i. product_id i = key r) L)
                 \<and> totalAmount r
                     = sum_list (map total_price_ttc (filter (\<lambda>i. product_id i = key r) L))
                 \<and> (\<exists>i. find (\<lambda>i. product_id i = key r) L = Some i
                          \<and> productName r = name i)"
    by auto
  have k': "key ` set rows = {100, 101, 102, 103, 105}"
    unfolding k by (auto simp: L_def)
  have c': "orderCount r = 2 \<and> totalAmount r = 19 \<and> productName r = ''Old name''"
    if "r \<in> set rows" "key r = 100" for r
    using c[rule_format, OF that(1)] unfolding that(2) by (simp add: L_def)
  from r k' c' show ?thesis by blast
qed

section \<open>Top clients\<close>

lemma matchStage_fun:
  "matchStage shopId start endD =
     (\<lambda>od. shop_id od = shopId \<and> status od \<in> {''confirmed'', ''shipped'', ''delivered''}
           \<and> start \<le> created_at od \<and> created_at od \<le> endD)"
  by (rule ext) (simp add: matchStage_def)

lemma groupByBuyer_keys: "map key (groupByBuyer docs) = uniq (map buyer_id docs)"
  unfolding groupByBuyer_def by (rule keys_grouped_rows) simp

lemma groupByBuyer_row:
  assumes "g \<in> set (groupByBuyer docs)"
  shows "key g \<in> buyer_id ` set docs"
    and "orderCount g = length (filter (\<lambda>od. buyer_id od = key g) docs)"
    and "totalAmount g = sum_list (map amounts_total (filter (\<lambda>od. buyer_id od = key g) docs))"
proof -
  from assms obtain k where "k \<in> buyer_id ` set docs"
    and "g = \<lparr>totalAmount = sum_list (map amounts_total (filter (\<lambda>od. buyer_id od = k) docs)),
              key = k, orderCount = length (filter (\<lambda>od. buyer_id od = k) docs)\<rparr>"
    unfolding groupByBuyer_def in_grouped_rows by blast
  then show "key g \<in> buyer_id ` set docs"
    and "orderCount g = length (filter (\<lambda>od. buyer_id od = key g) docs)"
    and "totalAmount g = sum_list (map amounts_total (filter (\<lambda>od. buyer_id od = key g) docs))"
    by simp_all
qed

lemma joinUsers_row:
  "r \<in> set (joinUsers us rows) \<longleftrightarrow>
     (\<exists>t \<in> set rows. \<exists>u \<in> set us. u_id u = key t
        \<and> r = \<lparr>totalAmount = totalAmount t, key = key t, orderCount = orderCount t,
                buyer = profile u\<rparr>)"
  by (force simp: joinUsers_def in_lookup_unwind)

lemma joinUsers_fields:
  assumes "distinct (map u_id us)"
  shows "map key (joinUsers us rows) = map key (filter (\<lambda>t. key t \<in> u_id ` set us) rows)"
    and "map orderCount (joinUsers us rows)
           = map orderCount (filter (\<lambda>t. key t \<in> u_id ` set us) rows)"
    and "map totalAmount (joinUsers us rows)
           = map totalAmount (filter (\<lambda>t. key t \<in> u_id ` set us) rows)"
proof -
  have f: "map (\<lambda>x. h (fst x)) (lookup_unwind key u_id us rows)
             = map h (filter (\<lambda>t. key t \<in> u_id ` set us) rows)" for h :: "oid stat \<Rightarrow> 'c"
    using arg_cong[OF fst_lookup_unwind[OF assms, of key rows], of "map h"]
    by (simp add: comp_def)
  show "map key (joinUsers us rows) = map key (filter (\<lambda>t. key t \<in> u_id ` set us) rows)"
    using f[of key] by (simp add: joinUsers_def comp_def case_prod_unfold)
  show "map orderCount (joinUsers us rows)
           = map orderCount (filter (\<lambda>t. key t \<in> u_id ` set us) rows)"
    using f[of orderCount] by (simp add: joinUsers_def comp_def case_prod_unfold)
  show "map totalAmount (joinUsers us rows)
           = map totalAmount (filter (\<lambda>t. key t \<in> u_id ` set us) rows)"
    using f[of totalAmount] by (simp add: joinUsers_def comp_def case_prod_unfold)
qed

text \<open>One view: the grouped buyers sorted by a field, cut to five, joined to the users.\<close>

lemma top_view:
  fixes kf :: "oid stat \<Rightarrow> 'b::linordered_idom" and kf' :: "clientRow \<Rightarrow> 'b"
    and us :: "user list" and M :: "order list"
  assumes us: "distinct (map u_id us)"
    and kf: "\<And>t (u :: user). kf' \<lparr>totalAmount = totalAmount t, key = key t, orderCount = orderCount t,
                         buyer = profile u\<rparr> = kf t"
  defines "V \<equiv> joinUsers us (take 5 (sort_key (\<lambda>r. - kf r) (groupByBuyer M)))"
  shows "length V \<le> 5"
    and "distinct (map key V)"
    and "\<And>r. r \<in> set V \<Longrightarrow> key r \<in> buyer_id ` set M
           \<and> orderCount r = length (filter (\<lambda>od. buyer_id od = key r) M)
           \<and> totalAmount r = sum_list (map amounts_total (filter (\<lambda>od. buyer_id od = key r) M))
           \<and> (\<exists>u \<in> set us. u_id u = key r \<and> buyer r = profile u)"
    and "sorted_wrt (\<lambda>a b. kf' b \<le> kf' a) V"
    and "\<And>g r. g \<in> set (groupByBuyer M) \<Longrightarrow> key g \<in> u_id ` set us \<Longrightarrow> key g \<notin> key ` set V
           \<Longrightarrow> r \<in> set V \<Longrightarrow> kf g \<le> kf' r"
    and "card (buyer_id ` set M) \<le> 5 \<Longrightarrow> key ` set V = buyer_id ` set M \<inter> u_id ` set us"
    and "\<exists>S. distinct (map key S) \<and> key ` set S = buyer_id ` set M
           \<and> (\<forall>g \<in> set S.
                 orderCount g = length (filter (\<lambda>od. buyer_id od = key g) M)
                 \<and> totalAmount g
                     = sum_list (map amounts_total (filter (\<lambda>od. buyer_id od = key g) M)))
           \<and> sorted_wrt (\<lambda>a b. kf b \<le> kf a) S
           \<and> map key V = filter (\<lambda>k. k \<in> u_id ` set us) (map key (take 5 S))"
proof -
  define G where "G = groupByBuyer M"
  define S where "S = sort_key (\<lambda>r. - kf r) G"
  define T where "T = take 5 S"
  have V: "V = joinUsers us T" by (simp add: V_def T_def S_def G_def)
  have keysS: "distinct (map key S)"
    by (simp add: S_def G_def distinct_map_sort_key groupByBuyer_keys)
  have sortedS: "sorted_wrt (\<lambda>a b. kf b \<le> kf a) S"
    unfolding S_def by (rule sort_desc_sorted)
  have keysT: "distinct (map key T)"
    using keysS by (simp add: T_def take_map[symmetric] distinct_take)
  have TS: "set T \<subseteq> set G" using set_take_subset[of 5 S] by (simp add: T_def S_def)
  have lenV: "length V = length (filter (\<lambda>t. key t \<in> u_id ` set us) T)"
    using arg_cong[OF joinUsers_fields(1)[OF us, of T], of length] by (simp add: V)
  show "length V \<le> 5"
    unfolding lenV using length_filter_le[of "\<lambda>t. key t \<in> u_id ` set us" T]
    by (simp add: T_def)
  show "distinct (map key V)"
    unfolding V joinUsers_fields(1)[OF us] using keysT by (simp add: distinct_map_filter)
  show "key r \<in> buyer_id ` set M
           \<and> orderCount r = length (filter (\<lambda>od. buyer_id od = key r) M)
           \<and> totalAmount r = sum_list (map amounts_total (filter (\<lambda>od. buyer_id od = key r) M))
           \<and> (\<exists>u \<in> set us. u_id u = key r \<and> buyer r = profile u)"
    if "r \<in> set V" for r
  proof -
    from that obtain t u where t: "t \<in> set T" and u: "u \<in> set us" "u_id u = key t"
      and r: "r = \<lparr>totalAmount = totalAmount t, key = key t, orderCount = orderCount t,
                   buyer = profile u\<rparr>"
      unfolding V joinUsers_row by blast
    from t TS have "t \<in> set (groupByBuyer M)" by (auto simp: G_def)
    from groupByBuyer_row[OF this] u show ?thesis by (auto simp: r)
  qed
  have "sorted_wrt (\<lambda>a b. kf b \<le> kf a) (filter (\<lambda>t. key t \<in> u_id ` set us) T)"
    using sortedS by (simp add: T_def sorted_wrt_filter)
  moreover have "map kf' V = map kf (filter (\<lambda>t. key t \<in> u_id ` set us) T)"
  proof -
    have "kf' (case x of (t, u) \<Rightarrow> \<lparr>totalAmount = totalAmount t, key = key t,
              orderCount = orderCount t, buyer = profile u\<rparr>) = kf (fst x)"
      for x :: "oid stat \<times> user"
      by (cases x) (simp add: kf)
    then have "map kf' (joinUsers us T) = map (\<lambda>x. kf (fst x)) (lookup_unwind key u_id us T)"
      by (simp add: joinUsers_def comp_def)
    also have "\<dots> = map kf (filter (\<lambda>t. key t \<in> u_id ` set us) T)"
      using arg_cong[OF fst_lookup_unwind[OF us, of key T], of "map kf"]
      by (simp add: comp_def)
    finally show ?thesis by (simp add: V)
  qed
  ultimately show "sorted_wrt (\<lambda>a b. kf' b \<le> kf' a) V"
    using sorted_wrt_fields[of kf' V kf _ "\<lambda>x y. y \<le> x"] by blast
  have keyV: "key ` set V = {k \<in> key ` set T. k \<in> u_id ` set us}"
  proof -
    have "key ` set V = set (map key V)" by simp
    also have "\<dots> = set (map key (filter (\<lambda>t. key t \<in> u_id ` set us) T))"
      unfolding V joinUsers_fields(1)[OF us] ..
    also have "\<dots> = {k \<in> key ` set T. k \<in> u_id ` set us}" by auto
    finally show ?thesis .
  qed
  show "kf g \<le> kf' r"
    if g: "g \<in> set (groupByBuyer M)" and gu: "key g \<in> u_id ` set us"
      and gV: "key g \<notin> key ` set V" and r: "r \<in> set V" for g r
  proof -
    from gV gu have "g \<notin> set T" unfolding keyV by auto
    moreover have "g \<in> set (take 5 S @ drop 5 S)" using g by (simp add: S_def G_def)
    ultimately have gd: "g \<in> set (drop 5 S)" unfolding set_append T_def by blast
    from r obtain t u where t: "t \<in> set T" and "u \<in> set us"
      and r': "r = \<lparr>totalAmount = totalAmount t, key = key t, orderCount = orderCount t,
                   buyer = profile u\<rparr>"
      unfolding V joinUsers_row by blast
    from sorted_take_drop[OF sortedS t[unfolded T_def] gd] show ?thesis
      by (simp add: r' kf)
  qed
  show "key ` set V = buyer_id ` set M \<inter> u_id ` set us" if "card (buyer_id ` set M) \<le> 5"
  proof -
    have "length S = card (buyer_id ` set M)"
      using arg_cong[OF groupByBuyer_keys[of M], of length]
      by (simp add: S_def G_def length_uniq)
    with that have "T = S" by (simp add: T_def)
    then have "key ` set T = buyer_id ` set M"
      using arg_cong[OF groupByBuyer_keys[of M], of set] by (simp add: S_def G_def)
    then show ?thesis unfolding keyV by auto
  qed
  have "key ` set S = buyer_id ` set M"
    using arg_cong[OF groupByBuyer_keys[of M], of set] by (simp add: S_def G_def)
  moreover have "\<forall>g \<in> set S.
                 orderCount g = length (filter (\<lambda>od. buyer_id od = key g) M)
                 \<and> totalAmount g
                     = sum_list (map amounts_total (filter (\<lambda>od. buyer_id od = key g) M))"
    using groupByBuyer_row(2,3)[of _ M] by (simp add: S_def G_def)
  moreover have "map key V = filter (\<lambda>k. k \<in> u_id ` set us) (map key (take 5 S))"
    unfolding V joinUsers_fields(1)[OF us] by (simp add: T_def filter_map comp_def)
  ultimately show "\<exists>S. distinct (map key S) \<and> key ` set S = buyer_id ` set M
           \<and> (\<forall>g \<in> set S.
                 orderCount g = length (filter (\<lambda>od. buyer_id od = key g) M)
                 \<and> totalAmount g
                     = sum_list (map amounts_total (filter (\<lambda>od. buyer_id od = key g) M)))
           \<and> sorted_wrt (\<lambda>a b. kf b \<le> kf a) S
           \<and> map key V = filter (\<lambda>k. k \<in> u_id ` set us) (map key (take 5 S))"
    using keysS sortedS by (intro exI[of _ S] conjI)
qed

text \<open>
  C4. For a request with a linked shop and both dates, over a user collection with
  unique identifiers, the top-clients report is computed from the shop's orders inside
  the resolved range whose status is confirmed, shipped or delivered; orders of any
  other status count nowhere. Each of the two views has at most 5 rows, at most one per
  buyer; a row belongs to a buyer with at least one such order and an existing user
  record, carries that user's profile, the number of the buyer's orders and the sum of
  their amounts. \<open>topByCount\<close> is in descending order of \<open>orderCount\<close>, \<open>topByAmount\<close>
  in descending order of \<open>totalAmount\<close>. A buyer with a user record who is absent from
  a view ranks no higher than any row of it, and with at most 5 buyers each view holds
  exactly the buyers that have a user record. In general each view is read off a
  ranking of all the buyers with such an order, in descending order of the view's
  field: it consists, in that order, of those of the first five buyers of the ranking
  that have a user record. Only the order among buyers with equal values is left open.
\<close>

theorem getShopTopClients_spec:
  fixes rt :: runtime and d :: db
  assumes "user_shop_id req = Some shopId"
    and "startDate req = Some sd" and "sd \<noteq> []"
    and "endDate req = Some ed" and "ed \<noteq> []"
    and "distinct (map u_id (users d))"
  defines "M \<equiv>
     filter (\<lambda>od. shop_id od = shopId
                 \<and> status od \<in> {''confirmed'', ''shipped'', ''delivered''}
                 \<and> newDate rt sd \<le> created_at od
                 \<and> created_at od \<le> setHoursEnd rt (newDate rt ed)) (orders d)"
  shows "\<exists>A B. getShopTopClients rt d req = Status200 \<lparr>topByCount = A, topByAmount = B\<rparr>
     \<and> (\<forall>V \<in> {A, B}. length V \<le> 5 \<and> distinct (map key V)
          \<and> (\<forall>r \<in> set V. key r \<in> buyer_id ` set M
                \<and> orderCount r = length (filter (\<lambda>od. buyer_id od = key r) M)
                \<and> totalAmount r
                    = sum_list (map amounts_total (filter (\<lambda>od. buyer_id od = key r) M))
                \<and> (\<exists>u \<in> set (users d). u_id u = key r \<and> buyer r = profile u)))
     \<and> sorted_wrt (\<lambda>a b. orderCount b \<le> orderCount a) A
     \<and> sorted_wrt (\<lambda>a b. totalAmount b \<le> totalAmount a) B
     \<and> (\<forall>b \<in> buyer_id ` set M \<inter> u_id ` set (users d). b \<notin> key ` set A \<longrightarrow>
          (\<forall>r \<in> set A. length (filter (\<lambda>od. buyer_id od = b) M) \<le> orderCount r))
     \<and> (\<forall>b \<in> buyer_id ` set M \<inter> u_id ` set (users d). b \<notin> key ` set B \<longrightarrow>
          (\<forall>r \<in> set B.
             sum_list (map amounts_total (filter (\<lambda>od. buyer_id od = b) M)) \<le> totalAmount r))
     \<and> (card (buyer_id ` set M) \<le> 5 \<longrightarrow>
          key ` set A = buyer_id ` set M \<inter> u_id ` set (users d)
          \<and> key ` set B = buyer_id ` set M \<inter> u_id ` set (users d))
     \<and> (\<exists>S :: oid stat list. distinct (map key S) \<and> key ` set S = buyer_id ` set M
          \<and> (\<forall>g \<in> set S.
                orderCount g = length (filter (\<lambda>od. buyer_id od = key g) M)
                \<and> totalAmount g
                    = sum_list (map amounts_total (filter (\<lambda>od. buyer_id od = key g) M)))
          \<and> sorted_wrt (\<lambda>a b. orderCount b \<le> orderCount a) S
          \<and> map key A = filter (\<lambda>k. k \<in> u_id ` set (users d)) (map key (take 5 S)))
     \<and> (\<exists>S :: oid stat list. distinct (map key S) \<and> key ` set S = buyer_id ` set M
          \<and> (\<forall>g \<in> set S.
                orderCount g = length (filter (\<lambda>od. buyer_id od = key g) M)
                \<and> totalAmount g
                    = sum_list (map amounts_total (filter (\<lambda>od. buyer_id od = key g) M)))
          \<and> sorted_wrt (\<lambda>a b. totalAmount b \<le> totalAmount a) S
          \<and> map key B = filter (\<lambda>k. k \<in> u_id ` set (users d)) (map key (take 5 S)))"
proof -
  define start where "start = newDate rt sd"
  define endD where "endD = setHoursEnd rt (newDate rt ed)"
  define A where "A = topByCountPipeline d shopId start endD"
  define B where "B = topByAmountPipeline d shopId start endD"
  have p: "present (startDate req) = Some sd" "present (endDate req) = Some ed"
    using assms(1-5) by (simp_all add: present_eq_Some)
  have m: "filter (matchStage shopId start endD) (orders d) = M"
    by (simp add: M_def matchStage_fun start_def endD_def)
  have resp: "getShopTopClients rt d req = Status200 \<lparr>topByCount = A, topByAmount = B\<rparr>"
    by (simp add: getShopTopClients_def Let_def assms(1) p A_def B_def start_def endD_def)
  have A: "A = joinUsers (users d)
                 (take 5 (sort_key (\<lambda>r. - int (orderCount r)) (groupByBuyer M)))"
    by (simp add: A_def topByCountPipeline_def m)
  have B: "B = joinUsers (users d)
                 (take 5 (sort_key (\<lambda>r. - totalAmount r) (groupByBuyer M)))"
    by (simp add: B_def topByAmountPipeline_def m)
  note vA = top_view[OF assms(6), where kf = "\<lambda>r. int (orderCount r)"
      and kf' = "\<lambda>r. int (orderCount r)" and M = M, folded A, simplified]
  note vB = top_view[OF assms(6), where kf = totalAmount and kf' = totalAmount and M = M,
      folded B, simplified]
  have grp: "\<exists>g \<in> set (groupByBuyer M). key g = b
              \<and> orderCount g = length (filter (\<lambda>od. buyer_id od = b) M)
              \<and> totalAmount g = sum_list (map amounts_total (filter (\<lambda>od. buyer_id od = b) M))"
    if "b \<in> buyer_id ` set M" for b
  proof -
    from that have "b \<in> set (map key (groupByBuyer M))"
      by (simp add: groupByBuyer_keys)
    then obtain g where g: "g \<in> set (groupByBuyer M)" "key g = b" by auto
    with groupByBuyer_row[OF g(1)] show ?thesis by auto
  qed
  have rows: "length V \<le> 5 \<and> distinct (map key V)
          \<and> (\<forall>r \<in> set V. key r \<in> buyer_id ` set M
                \<and> orderCount r = length (filter (\<lambda>od. buyer_id od = key r) M)
                \<and> totalAmount r
                    = sum_list (map amounts_total (filter (\<lambda>od. buyer_id od = key r) M))
                \<and> (\<exists>u \<in> set (users d). u_id u = key r \<and> buyer r = profile u))"
    if "V \<in> {A, B}" for V
    using that vA(1,2,3) vB(1,2,3) by blast
  have topA: "length (filter (\<lambda>od. buyer_id od = b) M) \<le> orderCount r"
    if "b \<in> buyer_id ` set M \<inter> u_id ` set (users d)" "b \<notin> key ` set A" "r \<in> set A" for b r
  proof -
    from that(1) grp obtain g where g: "g \<in> set (groupByBuyer M)" "key g = b"
      "orderCount g = length (filter (\<lambda>od. buyer_id od = b) M)" by blast
    from vA(5)[OF g(1) _ _ that(3)] that(1,2) g(2,3) show ?thesis by auto
  qed
  have topB: "sum_list (map amounts_total (filter (\<lambda>od. buyer_id od = b) M)) \<le> totalAmount r"
    if "b \<in> buyer_id ` set M \<inter> u_id ` set (users d)" "b \<notin> key ` set B" "r \<in> set B" for b r
  proof -
    from that(1) grp obtain g where g: "g \<in> set (groupByBuyer M)" "key g = b"
      "totalAmount g = sum_list (map amounts_total (filter (\<lambda>od. buyer_id od = b) M))"
      by blast
    from vB(5)[OF g(1) _ _ that(3)] that(1,2) g(2,3) show ?thesis by auto
  qed
  show ?thesis
  proof (rule exI[of _ A], rule exI[of _ B], intro conjI)
    show "getShopTopClients rt d req = Status200 \<lparr>topByCount = A, topByAmount = B\<rparr>"
      by (rule resp)
    show "\<forall>V \<in> {A, B}. length V \<le> 5 \<and> distinct (map key V)
          \<and> (\<forall>r \<in> set V. key r \<in> buyer_id ` set M
                \<and> orderCount r = length (filter (\<lambda>od. buyer_id od = key r) M)
                \<and> totalAmount r
                    = sum_list (map amounts_total (filter (\<lambda>od. buyer_id od = key r) M))
                \<and> (\<exists>u \<in> set (users d). u_id u = key r \<and> buyer r = profile u))"
      using rows by (intro ballI)
    show "sorted_wrt (\<lambda>a b. orderCount b \<le> orderCount a) A" by (rule vA(4))
    show "sorted_wrt (\<lambda>a b. totalAmount b \<le> totalAmount a) B" by (rule vB(4))
    show "\<forall>b \<in> buyer_id ` set M \<inter> u_id ` set (users d). b \<notin> key ` set A \<longrightarrow>
          (\<forall>r \<in> set A. length (filter (\<lambda>od. buyer_id od = b) M) \<le> orderCount r)"
      using topA by (intro ballI impI)
    show "\<forall>b \<in> buyer_id ` set M \<inter> u_id ` set (users d). b \<notin> key ` set B \<longrightarrow>
          (\<forall>r \<in> set B.
             sum_list (map amounts_total (filter (\<lambda>od. buyer_id od = b) M)) \<le> totalAmount r)"
      using topB by (intro ballI impI)
    show "card (buyer_id ` set M) \<le> 5 \<longrightarrow>
          key ` set A = buyer_id ` set M \<inter> u_id ` set (users d)
          \<and> key ` set B = buyer_id ` set M \<inter> u_id ` set (users d)"
      using vA(6) vB(6) by (intro impI conjI)
    show "\<exists>S :: oid stat list. distinct (map key S) \<and> key ` set S = buyer_id ` set M
          \<and> (\<forall>g \<in> set S.
                orderCount g = length (filter (\<lambda>od. buyer_id od = key g) M)
                \<and> totalAmount g
                    = sum_list (map amounts_total (filter (\<lambda>od. buyer_id od = key g) M)))
          \<and> sorted_wrt (\<lambda>a b. orderCount b \<le> orderCount a) S
          \<and> map key A = filter (\<lambda>k. k \<in> u_id ` set (users d)) (map key (take 5 S))"
      by (rule vA(7))
    show "\<exists>S :: oid stat list. distinct (map key S) \<and> key ` set S = buyer_id ` set M
          \<and> (\<forall>g \<in> set S.
                orderCount g = length (filter (\<lambda>od. buyer_id od = key g) M)
                \<and> totalAmount g
                    = sum_list (map amounts_total (filter (\<lambda>od. buyer_id od = key g) M)))
          \<and> sorted_wrt (\<lambda>a b. totalAmount b \<le> totalAmount a) S
          \<and> map key B = filter (\<lambda>k. k \<in> u_id ` set (users d)) (map key (take 5 S))"
      by (rule vB(7))
  qed
qed

theorem getShopTopClients_spec_witness:
  "(\<exists>A B. getShopTopClients sampleRuntime sampleDb (rangeRequest ''2023-01-01'' ''2024-12-31'')
            = Status200 \<lparr>topByCount = A, topByAmount = B\<rparr>
     \<and> key ` set A = {10, 11} \<and> key ` set B = {10, 11}
     \<and> (\<forall>r \<in> set A. key r = 10 \<longrightarrow> orderCount r = 2 \<and> totalAmount r = 60))
   \<and> (\<exists>A B. getShopTopClients sampleRuntime manyBuyersDb
                 (rangeRequest ''2024-01-01'' ''2024-12-31'')
            = Status200 \<lparr>topByCount = A, topByAmount = B\<rparr>
     \<and> map key B = [7, 5, 4, 3]
     \<and> sorted_wrt (\<lambda>a b. totalAmount b \<le> totalAmount a) B)"
proof -
  define M where "M = [sampleOrders ! 1, sampleOrders ! 2, sampleOrders ! 4, sampleOrders ! 5]"
  have a: "user_shop_id (rangeRequest ''2023-01-01'' ''2024-12-31'') = Some 1"
    "startDate (rangeRequest ''2023-01-01'' ''2024-12-31'') = Some ''2023-01-01''"
    "''2023-01-01'' \<noteq> []"
    "endDate (rangeRequest ''2023-01-01'' ''2024-12-31'') = Some ''2024-12-31''"
    "''2024-12-31'' \<noteq> []"
    "distinct (map u_id (users sampleDb))"
    by (simp_all add: rangeRequest_def sampleDb_def)
  have m: "filter (\<lambda>od. shop_id od = 1
                 \<and> status od \<in> {''confirmed'', ''shipped'', ''delivered''}
                 \<and> newDate sampleRuntime ''2023-01-01'' \<le> created_at od
                 \<and> created_at od \<le> setHoursEnd sampleRuntime (newDate sampleRuntime ''2024-12-31''))
             (orders sampleDb) = M"
    by (simp add: sample_defs M_def)
  have buyers: "buyer_id ` set M = {10, 11, 12}"
    by (auto simp: M_def sampleOrders_def)
  have us: "u_id ` set (users sampleDb) = {10, 11}"
    by (simp add: sampleDb_def)
  have card: "card (buyer_id ` set M) \<le> 5" by (simp add: buyers)
  from getShopTopClients_spec[OF a, where rt = sampleRuntime, unfolded m]
  obtain A B where
    r: "getShopTopClients sampleRuntime sampleDb (rangeRequest ''2023-01-01'' ''2024-12-31'')
            = Status200 \<lparr>topByCount = A, topByAmount = B\<rparr>"
    and rowsAB: "\<forall>V \<in> {A, B}. length V \<le> 5 \<and> distinct (map key V)
          \<and> (\<forall>r \<in> set V. key r \<in> buyer_id ` set M
                \<and> orderCount r = length (filter (\<lambda>od. buyer_id od = key r) M)
                \<and> totalAmount r
                    = sum_list (map amounts_total (filter (\<lambda>od. buyer_id od = key r) M))
                \<and> (\<exists>u \<in> set (users sampleDb). u_id u = key r \<and> buyer r = profile u))"
    and full: "card (buyer_id ` set M) \<le> 5 \<longrightarrow>
          key ` set A = buyer_id ` set M \<inter> u_id ` set (users sampleDb)
          \<and> key ` set B = buyer_id ` set M \<inter> u_id ` set (users sampleDb)"
    by (elim exE conjE)
  have rows: "\<forall>r \<in> set A.
                orderCount r = length (filter (\<lambda>od. buyer_id od = key r) M)
                \<and> totalAmount r
                    = sum_list (map amounts_total (filter (\<lambda>od. buyer_id od = key r) M))"
    using rowsAB by simp
  have k: "key ` set A = {10, 11}" "key ` set B = {10, 11}"
    using full card unfolding buyers us by auto
  have c: "orderCount r = 2 \<and> totalAmount r = 60" if "r \<in> set A" "key r = 10" for r
    using rows[rule_format, OF that(1)] unfolding that(2)
    by (simp add: M_def sampleOrders_def)
  from r k c have first:
    "\<exists>A B. getShopTopClients sampleRuntime sampleDb (rangeRequest ''2023-01-01'' ''2024-12-31'')
            = Status200 \<lparr>topByCount = A, topByAmount = B\<rparr>
     \<and> key ` set A = {10, 11} \<and> key ` set B = {10, 11}
     \<and> (\<forall>r \<in> set A. key r = 10 \<longrightarrow> orderCount r = 2 \<and> totalAmount r = 60)"
    by blast
  have b: "user_shop_id (rangeRequest ''2024-01-01'' ''2024-12-31'') = Some 1"
    "startDate (rangeRequest ''2024-01-01'' ''2024-12-31'') = Some ''2024-01-01''"
    "''2024-01-01'' \<noteq> []"
    "endDate (rangeRequest ''2024-01-01'' ''2024-12-31'') = Some ''2024-12-31''"
    "''2024-12-31'' \<noteq> []"
    "distinct (map u_id (users manyBuyersDb))"
    by (simp_all add: rangeRequest_def manyBuyersDb_def userOf_def)
  define N where "N = orders manyBuyersDb"
  have n: "filter (\<lambda>od. shop_id od = 1
                 \<and> status od \<in> {''confirmed'', ''shipped'', ''delivered''}
                 \<and> newDate sampleRuntime ''2024-01-01'' \<le> created_at od
                 \<and> created_at od \<le> setHoursEnd sampleRuntime (newDate sampleRuntime ''2024-12-31''))
             (orders manyBuyersDb) = N"
    by (simp add: sample_defs N_def manyBuyersDb_def orderOf_def)
  have us': "u_id ` set (users manyBuyersDb) = {1, 2, 3, 4, 5, 7}"
    by (simp add: manyBuyersDb_def userOf_def)
  have buyers': "buyer_id ` set N = {1, 2, 3, 4, 5, 6, 7}"
    by (auto simp: N_def manyBuyersDb_def orderOf_def)
  from getShopTopClients_spec[OF b, where rt = sampleRuntime, unfolded n us' buyers']
  obtain A' B' and S :: "oid stat list" where
    r': "getShopTopClients sampleRuntime manyBuyersDb (rangeRequest ''2024-01-01'' ''2024-12-31'')
            = Status200 \<lparr>topByCount = A', topByAmount = B'\<rparr>"
    and s': "sorted_wrt (\<lambda>a b. totalAmount b \<le> totalAmount a) B'"
    and dS: "distinct (map key S)"
    and kS: "key ` set S = {1, 2, 3, 4, 5, 6, 7}"
    and vS: "\<forall>g \<in> set S.
                orderCount g = length (filter (\<lambda>od. buyer_id od = key g) N)
                \<and> totalAmount g = sum_list (map amounts_total (filter (\<lambda>od. buyer_id od = key g) N))"
    and oS: "sorted_wrt (\<lambda>a b. totalAmount b \<le> totalAmount a) S"
    and bS: "map key B' = filter (\<lambda>k. k \<in> {1, 2, 3, 4, 5, 7}) (map key (take 5 S))"
    by (elim exE conjE)
  have amt: "totalAmount g = (if key g = 1 then 15 else 10 * of_nat (key g))"
    if "g \<in> set S" for g
  proof -
    from that kS have "key g \<in> {1, 2, 3, 4, 5, 6, 7}" by blast
    with vS[rule_format, OF that] show ?thesis
      by (auto simp: N_def manyBuyersDb_def orderOf_def)
  qed
  have le: "key y \<le> key x"
    if "x \<in> set S" "y \<in> set S" "totalAmount y \<le> totalAmount x" for x y
  proof -
    from that(1,2) kS have "key x \<in> {1, 2, 3, 4, 5, 6, 7}" "key y \<in> {1, 2, 3, 4, 5, 6, 7}"
      by blast+
    with that(3) show ?thesis unfolding amt[OF that(1)] amt[OF that(2)]
      by (auto split: if_splits)
  qed
  have "sorted_wrt (\<lambda>a b. key b \<le> key a) S"
    by (rule sorted_wrt_mono_rel[OF _ oS]) (rule le)
  hence "sorted (rev (map key S))"
    by (simp add: sorted_wrt_rev sorted_wrt_map)
  moreover have "distinct (rev (map key S))" using dS by simp
  moreover have "set (rev (map key S)) = set [1, 2, 3, 4, 5, 6, 7 :: nat]"
    using kS by simp
  ultimately have "rev (map key S) = [1, 2, 3, 4, 5, 6, 7]"
    by (intro sorted_distinct_set_unique) simp_all
  hence "map key S = rev [1, 2, 3, 4, 5, 6, 7]" by (simp add: rev_swap)
  hence "map key (take 5 S) = [7, 6, 5, 4, 3]" by (simp add: take_map[symmetric])
  with bS have "map key B' = [7, 5, 4, 3]" by simp
  with r' s' have second:
    "\<exists>A B. getShopTopClients sampleRuntime manyBuyersDb
                 (rangeRequest ''2024-01-01'' ''2024-12-31'')
            = Status200 \<lparr>topByCount = A, topByAmount = B\<rparr>
     \<and> map key B = [7, 5, 4, 3]
     \<and> sorted_wrt (\<lambda>a b. totalAmount b \<le> totalAmount a) B"
    by (intro exI[of _ A'] exI[of _ B'] conjI)
  from first second show ?thesis by (rule conjI)
qed

section \<open>Global statistics\<close>

subsection \<open>The year before a decimal year\<close>

lemma digitOf_digit: "k < 10 \<Longrightarrow> digitOf 10 (char_of (48 + k)) = Some k"
  by (simp add: digitOf_def Let_def)

lemma showNat_digits: "c \<in> set (showNat n) \<Longrightarrow> 48 \<le> (of_char c :: nat) \<and> (of_char c :: nat) \<le> 57"
proof (induction n rule: showNat.induct)
  case (1 n)
  show ?case
  proof (cases "n < 10")
    case True
    with "1.prems" show ?thesis by (subst (asm) showNat.simps) auto
  next
    case False
    with "1.prems" have "c \<in> set (showNat (n div 10)) \<or> c = char_of (48 + n mod 10)"
      by (subst (asm) showNat.simps) auto
    then show ?thesis
    proof
      assume "c \<in> set (showNat (n div 10))"
      with False "1.IH" show ?thesis by simp
    next
      assume c: "c = char_of (48 + n mod 10)"
      have "n mod 10 < 10" by simp
      then have "(48 + n mod 10) mod 256 = 48 + n mod 10" by simp
      then show ?thesis unfolding c of_char_of by simp
    qed
  qed
qed

lemma showNat_not_Nil: "showNat n \<noteq> []"
  by (subst showNat.simps) simp

lemma radixDigits_append:
  "\<forall>c \<in> set xs. digitOf R c \<noteq> None \<Longrightarrow>
     radixDigits R (xs @ ys) = radixDigits R xs @ radixDigits R ys"
  by (induction xs) (auto split: option.splits)

lemma radixDigits_showNat:
  "fold (\<lambda>k acc. acc * 10 + k) (radixDigits 10 (showNat n)) 0 = n
   \<and> radixDigits 10 (showNat n) \<noteq> []"
proof (induction n rule: showNat.induct)
  case (1 n)
  show ?case
  proof (cases "n < 10")
    case True
    then have "showNat n = [char_of (48 + n)]" by (subst showNat.simps) simp
    with True show ?thesis by (simp add: digitOf_digit)
  next
    case False
    have s: "showNat n = showNat (n div 10) @ [char_of (48 + n mod 10)]"
      using False by (subst showNat.simps) simp
    have d: "\<forall>c \<in> set (showNat (n div 10)). digitOf 10 c \<noteq> None"
    proof
      fix c assume "c \<in> set (showNat (n div 10))"
      from showNat_digits[OF this] have "(of_char c :: nat) - 48 < 10" by linarith
      with showNat_digits[OF \<open>c \<in> set (showNat (n div 10))\<close>]
      show "digitOf 10 c \<noteq> None" by (simp add: digitOf_def Let_def)
    qed
    have r: "radixDigits 10 (showNat n) = radixDigits 10 (showNat (n div 10)) @ [n mod 10]"
      unfolding s radixDigits_append[OF d] by (simp add: digitOf_digit)
    from "1.IH"[OF False] show ?thesis unfolding r by simp
  qed
qed

lemma parseInt_showNat: "parseInt (showNat n) = Some (int n)"
proof -
  obtain c cs where s: "showNat n = c # cs"
    using showNat_not_Nil[of n] by (cases "showNat n") auto
  have dig: "48 \<le> (of_char x :: nat) \<and> (of_char x :: nat) \<le> 57" if "x \<in> set (c # cs)" for x
    using showNat_digits[of x n] that by (simp add: s)
  have c: "\<not> isWhite c" "c \<noteq> CHR ''-''" "c \<noteq> CHR ''+''"
    using dig[of c] by (auto simp: isWhite_def)
  have hex: "(case c # cs of a # b # _ \<Rightarrow> a = CHR ''0'' \<and> (b = CHR ''x'' \<or> b = CHR ''X'')
              | _ \<Rightarrow> False) = False"
  proof (cases cs)
    case Nil
    then show ?thesis by simp
  next
    case (Cons b bs)
    with dig[of b] have "b \<noteq> CHR ''x''" "b \<noteq> CHR ''X''" by auto
    with Cons show ?thesis by simp
  qed
  show ?thesis
    using radixDigits_showNat[of n] c hex
    by (simp add: parseInt_def Let_def s)
qed

lemma prevYear_showNat: "0 < n \<Longrightarrow> prevYear (showNat n) = showNat (n - 1)"
  by (simp add: prevYear_def parseInt_showNat numberToString_def nat_diff_distrib')

text \<open>
  C7. For a request with a linked shop and a year, the global report is computed from
  the shop's orders inside the year window and inside the window of the year before
  (for a decimal year \<open>n\<close> the year before is \<open>n - 1\<close>). \<open>totalOrders\<close> and
  \<open>totalAmount\<close> are the number and amount sum of the target year, \<open>totalCustomers\<close>
  is the number of distinct buyers of the target year, and the three diffs are
  \<open>calculatePercentageDiff\<close> of the target year's value and the previous year's value
  (with distinct buyers counted for each year). \<open>avgRating\<close> and \<open>countRating\<close> are
  read from the shop record alone (0 when there is no record), whatever the year.
  Five orders after a year without orders give \<open>ordersDiff = 100\<close>; five orders of one
  buyer give \<open>totalCustomers = 1\<close>.
\<close>

theorem getShopGlobalStats_spec:
  fixes rt :: runtime and d :: db
  assumes "user_shop_id req = Some shopId" and "year req = Some y" and "y \<noteq> []"
  defines "cur \<equiv>
     filter (\<lambda>od. shop_id od = shopId \<and> startOfYear rt y \<le> created_at od
                 \<and> created_at od \<le> endOfYear rt y) (orders d)"
  defines "prev \<equiv>
     filter (\<lambda>od. shop_id od = shopId \<and> startOfYear rt (prevYear y) \<le> created_at od
                 \<and> created_at od \<le> endOfYear rt (prevYear y)) (orders d)"
  shows "\<exists>g. getShopGlobalStats rt d req = Status200 g
     \<and> totalOrders g = length cur
     \<and> totalAmount g = sum_list (map amounts_total cur)
     \<and> totalCustomers g = card (buyer_id ` set cur)
     \<and> ordersDiff g = calculatePercentageDiff (of_nat (length cur)) (of_nat (length prev))
     \<and> amountDiff g = calculatePercentageDiff (sum_list (map amounts_total cur))
                         (sum_list (map amounts_total prev))
     \<and> customersDiff g = calculatePercentageDiff (of_nat (card (buyer_id ` set cur)))
                            (of_nat (card (buyer_id ` set prev)))
     \<and> avgRating g = (case find (\<lambda>s. s_id s = shopId) (shops d) of
                        None \<Rightarrow> 0 | Some s \<Rightarrow> avg_rating s)
     \<and> countRating g = (case find (\<lambda>s. s_id s = shopId) (shops d) of
                          None \<Rightarrow> 0 | Some s \<Rightarrow> count_rating s)
     \<and> (\<forall>n > 0. y = showNat n \<longrightarrow> prevYear y = showNat (n - 1))
     \<and> (length cur = 5 \<and> prev = [] \<longrightarrow> ordersDiff g = 100)
     \<and> (length cur = 5 \<and> (\<forall>od \<in> set cur. buyer_id od = b) \<longrightarrow> totalCustomers g = 1)"
proof -
  define g where "g =
     \<lparr>totalAmount = sum_list (map amounts_total cur),
      totalOrders = length cur,
      ordersDiff = calculatePercentageDiff (of_nat (length cur)) (of_nat (length prev)),
      amountDiff = calculatePercentageDiff (sum_list (map amounts_total cur))
                     (sum_list (map amounts_total prev)),
      avgRating = (case find (\<lambda>s. s_id s = shopId) (shops d) of
                     None \<Rightarrow> 0 | Some s \<Rightarrow> avg_rating s),
      countRating = (case find (\<lambda>s. s_id s = shopId) (shops d) of
                       None \<Rightarrow> 0 | Some s \<Rightarrow> count_rating s),
      totalCustomers = card (buyer_id ` set cur),
      customersDiff = calculatePercentageDiff (of_nat (card (buyer_id ` set cur)))
                        (of_nat (card (buyer_id ` set prev)))\<rparr>"
  have p: "present (year req) = Some y"
    using assms(2,3) by (simp add: present_eq_Some)
  have c: "filter (inRange shopId (startOfYear rt y) (endOfYear rt y)) (orders d) = cur"
    by (simp add: cur_def inRange_fun)
  have pv: "filter (inRange shopId (startOfYear rt (prevYear y)) (endOfYear rt (prevYear y)))
              (orders d) = prev"
    by (simp add: prev_def inRange_fun)
  have cust: "length (distinctBuyers d shopId (startOfYear rt y) (endOfYear rt y))
                = card (buyer_id ` set cur)"
    "length (distinctBuyers d shopId (startOfYear rt (prevYear y)) (endOfYear rt (prevYear y)))
                = card (buyer_id ` set prev)"
    by (simp_all add: distinctBuyers_def c pv length_uniq)
  have resp: "getShopGlobalStats rt d req = Status200 g"
    unfolding getShopGlobalStats_def Let_def
    by (simp add: assms(1) p c pv cust group_null_amount group_null_orders findById_def g_def)
  have ex1: "ordersDiff g = 100" if "length cur = 5" "prev = []"
    using that by (simp add: g_def calculatePercentageDiff_def Let_def)
  have ex2: "totalCustomers g = 1" if "length cur = 5" "\<forall>od \<in> set cur. buyer_id od = b"
  proof -
    from that(1) obtain x where x: "x \<in> set cur" by (cases cur) auto
    have "buyer_id ` set cur = {b}"
    proof
      show "buyer_id ` set cur \<subseteq> {b}" using that(2) by auto
      show "{b} \<subseteq> buyer_id ` set cur" using that(2) x by force
    qed
    then show ?thesis by (simp add: g_def)
  qed
  show ?thesis
  proof (intro exI conjI allI impI)
    show "getShopGlobalStats rt d req = Status200 g" by (rule resp)
    show "prevYear y = showNat (n - 1)" if "0 < n" "y = showNat n" for n
      using that by (simp add: prevYear_showNat)
    show "ordersDiff g = 100" if "length cur = 5 \<and> prev = []"
      using that ex1 by blast
    show "totalCustomers g = 1" if "length cur = 5 \<and> (\<forall>od \<in> set cur. buyer_id od = b)"
      using that ex2 by blast
  qed (simp_all add: g_def)
qed

theorem getShopGlobalStats_spec_witness:
  "(\<exists>g. getShopGlobalStats sampleRuntime sampleDb (yearRequest ''2024'') = Status200 g
      \<and> totalOrders g = 3 \<and> totalAmount g = 60 \<and> totalCustomers g = 2
      \<and> ordersDiff g = 0 \<and> amountDiff g = toDouble (- (921 / 25)) \<and> customersDiff g = 0
      \<and> avgRating g = 9 / 2 \<and> countRating g = 12)
   \<and> (\<exists>g. getShopGlobalStats sampleRuntime fiveOrdersDb (yearRequest ''2024'') = Status200 g
      \<and> ordersDiff g = 100 \<and> totalCustomers g = 1)
   \<and> prevYear ''2024'' = ''2023''"
proof -
  have a: "user_shop_id (yearRequest ''2024'') = Some 1"
    "year (yearRequest ''2024'') = Some ''2024''" "''2024'' \<noteq> []"
    by (simp_all add: yearRequest_def)
  have s: "showNat 2024 = ''2024''" "showNat (2024 - 1) = ''2023''" by code_simp+
  have w: "startOfYear sampleRuntime ''2024'' = 1704067200000"
    "endOfYear sampleRuntime ''2024'' = 1735689599999"
    "startOfYear sampleRuntime ''2023'' = 1672531200000"
    "endOfYear sampleRuntime ''2023'' = 1704067199999"
    by (simp_all add: startOfYear_def endOfYear_def sampleRuntime_def sampleDate_def)
  note inst1 = getShopGlobalStats_spec[OF a, where rt = sampleRuntime and d = sampleDb and b = 10]
  from inst1 have py: "prevYear ''2024'' = ''2023''"
    using s by (metis zero_less_numeral)
  define cur where "cur = [sampleOrders ! 0, sampleOrders ! 1, sampleOrders ! 2]"
  define prev where "prev = [sampleOrders ! 4, sampleOrders ! 5, sampleOrders ! 6]"
  have c1: "filter (\<lambda>od. shop_id od = 1 \<and> 1704067200000 \<le> created_at od
                 \<and> created_at od \<le> 1735689599999) (orders sampleDb) = cur"
    by (simp add: sampleDb_def sampleOrders_def cur_def)
  have p1: "filter (\<lambda>od. shop_id od = 1 \<and> 1672531200000 \<le> created_at od
                 \<and> created_at od \<le> 1704067199999) (orders sampleDb) = prev"
    by (simp add: sampleDb_def sampleOrders_def prev_def)
  have v1: "length cur = 3" "sum_list (map amounts_total cur) = 60"
    "card (buyer_id ` set cur) = 2" "length prev = 3" "sum_list (map amounts_total prev) = 95"
    "card (buyer_id ` set prev) = 2"
    by (simp_all add: cur_def prev_def sampleOrders_def)
  have d1: "calculatePercentageDiff 3 3 = 0" "calculatePercentageDiff 60 95 = toDouble (- (921 / 25))"
    "calculatePercentageDiff 2 2 = 0"
    by code_simp+
  have sh: "find (\<lambda>s. s_id s = 1) (shops sampleDb) = Some \<lparr>s_id = 1, avg_rating = 9 / 2, count_rating = 12\<rparr>"
    by (simp add: sampleDb_def)
  from inst1[unfolded py w c1 p1 v1 sh]
  have first: "\<exists>g. getShopGlobalStats sampleRuntime sampleDb (yearRequest ''2024'') = Status200 g
      \<and> totalOrders g = 3 \<and> totalAmount g = 60 \<and> totalCustomers g = 2
      \<and> ordersDiff g = 0 \<and> amountDiff g = toDouble (- (921 / 25)) \<and> customersDiff g = 0
      \<and> avgRating g = 9 / 2 \<and> countRating g = 12"
    using d1 by auto
  define five where "five = orders fiveOrdersDb"
  have c2: "filter (\<lambda>od. shop_id od = 1 \<and> 1704067200000 \<le> created_at od
                 \<and> created_at od \<le> 1735689599999) (orders fiveOrdersDb) = five"
    by (simp add: five_def fiveOrdersDb_def orderAt_def)
  have p2: "filter (\<lambda>od. shop_id od = 1 \<and> 1672531200000 \<le> created_at od
                 \<and> created_at od \<le> 1704067199999) (orders fiveOrdersDb) = []"
    by (simp add: fiveOrdersDb_def orderAt_def)
  have v2: "length five = 5" "\<forall>od \<in> set five. buyer_id od = 10"
    by (simp_all add: five_def fiveOrdersDb_def orderAt_def)
  from getShopGlobalStats_spec[OF a, where rt = sampleRuntime and d = fiveOrdersDb and b = 10,
      unfolded py w c2 p2]
  have second: "\<exists>g. getShopGlobalStats sampleRuntime fiveOrdersDb (yearRequest ''2024'')
                      = Status200 g
      \<and> ordersDiff g = 100 \<and> totalCustomers g = 1"
    using v2 by auto
  from first second py show ?thesis by blast
qed

section \<open>Statistics per category\<close>

lemma lookup_unwind_map:
  "lookup_unwind lf ff coll (map h docs)
     = map (\<lambda>(x, f). (h x, f)) (lookup_unwind (\<lambda>x. lf (h x)) ff coll docs)"
  by (induction docs) (simp_all add: lookup_unwind_def comp_def)

lemma lookup_unwind_preserve_map:
  "lookup_unwind_preserve lf ff coll (map h docs)
     = map (\<lambda>(x, f). (h x, f)) (lookup_unwind_preserve (\<lambda>x. lf (h x)) ff coll docs)"
  by (induction docs) (simp_all add: lookup_unwind_preserve_def comp_def split: list.splits)

lemma group_by_map:
  "group_by f (map h docs) = map (\<lambda>(k, g). (k, map h g)) (group_by (\<lambda>x. f (h x)) docs)"
  by (simp add: group_by_def filter_map comp_def)

lemma group_by_nonempty: "(k, g) \<in> set (group_by f docs) \<Longrightarrow> g \<noteq> []"
  by (auto simp: group_by_def filter_empty_conv)

lemma categoryStats_items:
  "categoryStatsPipeline d shopId start endD
     = categoryRows (concat (map items (filter (inRange shopId start endD) (orders d))))
         (products d) (categoryproducts d)"
proof -
  define U where "U = unwind_items (filter (inRange shopId start endD) (orders d))"
  define J1 where "J1 = lookup_unwind (\<lambda>x. product_id (snd x)) p_id (products d) U"
  define J2 where
    "J2 = lookup_unwind_preserve (\<lambda>x. category_id (snd x)) c_id (categoryproducts d) J1"
  define \<pi> where "\<pi> = (\<lambda>(x :: order \<times> item, p :: product). (snd x, p))"
  define \<rho> where "\<rho> = (\<lambda>(x :: (order \<times> item) \<times> product, c :: category option). (\<pi> x, c))"
  define mk where "mk = (\<lambda>(k :: oid option, g :: (((order \<times> item) \<times> product) \<times> category option) list).
              \<lparr>totalAmount = sum_list (map (\<lambda>x. total_price_ttc (snd (fst (fst x)))) g),
               key = k, orderCount = length g,
               categoryName = (case snd (hd g) of None \<Rightarrow> sansCategorie
                               | Some c \<Rightarrow> c_name c)\<rparr>)"
  define mk' where "mk' = (\<lambda>(k :: oid option, g :: ((item \<times> product) \<times> category option) list).
              \<lparr>totalAmount = sum_list (map (\<lambda>x. total_price_ttc (fst (fst x))) g),
               key = k, orderCount = length g,
               categoryName = (case snd (hd g) of None \<Rightarrow> sansCategorie
                               | Some c \<Rightarrow> c_name c)\<rparr>)"
  have lhs: "categoryStatsPipeline d shopId start endD
          = sort_key (\<lambda>r. - totalAmount r)
              (map mk (group_by (\<lambda>x. category_id (snd (fst x))) J2))"
    by (simp add: categoryStatsPipeline_def categoryJoin_def J2_def J1_def U_def mk_def)
  have lines: "concat (map items (filter (inRange shopId start endD) (orders d))) = map snd U"
    by (simp add: U_def snd_unwind_items)
  have j1: "lookup_unwind product_id p_id (products d) (map snd U) = map \<pi> J1"
    unfolding lookup_unwind_map J1_def \<pi>_def ..
  have "(\<lambda>x. category_id (snd (\<pi> x))) = (\<lambda>x. category_id (snd x))"
    by (rule ext) (simp add: \<pi>_def case_prod_unfold)
  then have j2: "lookup_unwind_preserve (\<lambda>x. category_id (snd x)) c_id (categoryproducts d)
              (map \<pi> J1) = map \<rho> J2"
    unfolding lookup_unwind_preserve_map J2_def \<rho>_def by simp
  have "(\<lambda>x. category_id (snd (fst (\<rho> x)))) = (\<lambda>x. category_id (snd (fst x)))"
    by (rule ext) (simp add: \<rho>_def \<pi>_def case_prod_unfold)
  then have g: "group_by (\<lambda>x. category_id (snd (fst x))) (map \<rho> J2)
            = map (\<lambda>(k, g). (k, map \<rho> g)) (group_by (\<lambda>x. category_id (snd (fst x))) J2)"
    unfolding group_by_map by simp
  have mk: "mk' (k, map \<rho> g) = mk (k, g)" if "g \<noteq> []" for k g
  proof -
    have "snd (hd (map \<rho> g)) = snd (hd g)"
      using that by (simp add: hd_map \<rho>_def case_prod_unfold)
    moreover have "sum_list (map (\<lambda>x. total_price_ttc (fst (fst x))) (map \<rho> g))
                     = sum_list (map (\<lambda>x. total_price_ttc (snd (fst (fst x)))) g)"
      by (simp add: \<rho>_def \<pi>_def case_prod_unfold comp_def)
    ultimately show ?thesis unfolding mk_def mk'_def prod.case by simp
  qed
  have "map mk' (map (\<lambda>(k, g). (k, map \<rho> g)) (group_by (\<lambda>x. category_id (snd (fst x))) J2))
          = map mk (group_by (\<lambda>x. category_id (snd (fst x))) J2)"
  proof -
    have "mk' (case x of (k, g) \<Rightarrow> (k, map \<rho> g)) = mk x"
      if "x \<in> set (group_by (\<lambda>x. category_id (snd (fst x))) J2)" for x
    proof (cases x)
      case (Pair k g)
      with that have "g \<noteq> []" using group_by_nonempty by fast
      from mk[OF this] Pair show ?thesis by simp
    qed
    then show ?thesis unfolding map_map by (intro map_cong) simp_all
  qed
  then have "sort_key (\<lambda>r. - totalAmount r)
      (map mk' (map (\<lambda>(k, g). (k, map \<rho> g)) (group_by (\<lambda>x. category_id (snd (fst x))) J2)))
    = sort_key (\<lambda>r. - totalAmount r) (map mk (group_by (\<lambda>x. category_id (snd (fst x))) J2))"
    by (rule arg_cong)
  then show ?thesis
    unfolding lhs categoryRows_def lines j1 j2 g mk'_def[symmetric] by (rule sym)
qed

lemma lookup_unwind_matched:
  "lookup_unwind lf ff coll (filter (\<lambda>x. lf x \<in> ff ` set coll) docs)
     = lookup_unwind lf ff coll docs"
proof (induction docs)
  case Nil
  then show ?case by simp
next
  case (Cons x docs)
  show ?case
  proof (cases "lf x \<in> ff ` set coll")
    case True
    with Cons show ?thesis by (simp add: lookup_unwind_def)
  next
    case False
    then have "filter (\<lambda>f. ff f = lf x) coll = []"
      by (force simp: filter_empty_conv image_iff)
    with False Cons show ?thesis by (simp add: lookup_unwind_def)
  qed
qed

lemma categoryRows_matched:
  "categoryRows (filter (\<lambda>i. product_id i \<in> p_id ` set ps) lines) ps cs = categoryRows lines ps cs"
  by (simp add: categoryRows_def lookup_unwind_matched)

lemma lines_of_pruned:
  "concat (map items (filter (inRange shopId start endD)
       (map (\<lambda>od. od\<lparr>items := filter P (items od)\<rparr>) docs)))
     = filter P (concat (map items (filter (inRange shopId start endD) docs)))"
  by (induction docs) (simp_all add: inRange_def)

lemma in_lookup_unwind_preserve:
  "(x, c) \<in> set (lookup_unwind_preserve lf ff coll docs) \<Longrightarrow> x \<in> set docs"
proof (induction docs)
  case Nil
  then show ?case by (simp add: lookup_unwind_preserve_def)
next
  case (Cons a docs)
  then show ?case
    by (cases "filter (\<lambda>f. Some (ff f) = lf a) coll")
      (auto simp: lookup_unwind_preserve_def)
qed

lemma categoryRows_origin:
  assumes "r \<in> set (categoryRows lines ps cs)"
  shows "\<exists>i \<in> set lines. \<exists>p \<in> set ps. p_id p = product_id i \<and> category_id p = key r"
proof -
  define J where "J = lookup_unwind_preserve (\<lambda>x. category_id (snd x)) c_id cs
                        (lookup_unwind product_id p_id ps lines)"
  define G where "G = map (\<lambda>(k, g).
              \<lparr>totalAmount = sum_list (map (\<lambda>x. total_price_ttc (fst (fst x))) g),
               key = k, orderCount = length g,
               categoryName = (case snd (hd g) of None \<Rightarrow> sansCategorie
                               | Some c \<Rightarrow> c_name c)\<rparr>)
          (group_by (\<lambda>x. category_id (snd (fst x))) J)"
  have "map key G = uniq (map (\<lambda>x. category_id (snd (fst x))) J)"
    unfolding G_def by (rule keys_grouped_rows) simp
  moreover from assms have "r \<in> set G"
    by (simp add: categoryRows_def J_def G_def)
  ultimately have "key r \<in> (\<lambda>x. category_id (snd (fst x))) ` set J"
    by (metis image_eqI list.set_map set_uniq)
  then obtain x where x: "x \<in> set J" "category_id (snd (fst x)) = key r" by auto
  have "((fst (fst x), snd (fst x)), snd x) \<in> set J" using x(1) by simp
  then have "(fst (fst x), snd (fst x)) \<in> set (lookup_unwind product_id p_id ps lines)"
    unfolding J_def by (rule in_lookup_unwind_preserve)
  with x(2) have "\<exists>i p. (i, p) \<in> set (lookup_unwind product_id p_id ps lines)
                    \<and> category_id p = key r"
    by blast
  then show ?thesis unfolding in_lookup_unwind by blast
qed

lemma unresolved_groups:
  assumes "\<forall>f \<in> set coll. Some (ff f) \<noteq> \<kappa>"
  shows "filter (\<lambda>y. lf (fst y) = \<kappa>) (lookup_unwind_preserve lf ff coll docs)
           = map (\<lambda>x. (x, None)) (filter (\<lambda>x. lf x = \<kappa>) docs)"
proof (induction docs)
  case Nil
  then show ?case by (simp add: lookup_unwind_preserve_def)
next
  case (Cons x docs)
  let ?m = "filter (\<lambda>f. Some (ff f) = lf x) coll"
  have step: "lookup_unwind_preserve lf ff coll (x # docs)
                = (case ?m of [] \<Rightarrow> [(x, None)] | f # fs \<Rightarrow> map (\<lambda>f'. (x, Some f')) (f # fs))
                  @ lookup_unwind_preserve lf ff coll docs"
    by (simp add: lookup_unwind_preserve_def)
  show ?case
  proof (cases "lf x = \<kappa>")
    case True
    with assms have "?m = []" by (auto simp: filter_empty_conv)
    with True Cons show ?thesis unfolding step by simp
  next
    case False
    then have "filter (\<lambda>y. lf (fst y) = \<kappa>)
                 (case ?m of [] \<Rightarrow> [(x, None)] | f # fs \<Rightarrow> map (\<lambda>f'. (x, Some f')) (f # fs)) = []"
      by (cases ?m) (auto simp: filter_empty_conv)
    with False Cons show ?thesis unfolding step by simp
  qed
qed

lemma joined_with:
  assumes "distinct (map ff coll)"
  shows "map fst (filter (\<lambda>x. P (snd x)) (lookup_unwind lf ff coll docs))
           = filter (\<lambda>x. \<exists>f \<in> set coll. ff f = lf x \<and> P f) docs"
proof (induction docs)
  case Nil
  then show ?case by (simp add: lookup_unwind_def)
next
  case (Cons x docs)
  have step: "lookup_unwind lf ff coll (x # docs)
                = map (Pair x) (filter (\<lambda>f. ff f = lf x) coll) @ lookup_unwind lf ff coll docs"
    by (simp add: lookup_unwind_def)
  have one: "map fst (filter (\<lambda>y. P (snd y)) (map (Pair x) (filter (\<lambda>f. ff f = lf x) coll)))
               = (if \<exists>f \<in> set coll. ff f = lf x \<and> P f then [x] else [])"
  proof (cases "find (\<lambda>f. ff f = lf x) coll")
    case None
    then have "\<not> (\<exists>f \<in> set coll. ff f = lf x \<and> P f)" by (auto simp: find_None_iff)
    with None show ?thesis by (simp add: filter_key_distinct[OF assms])
  next
    case (Some f)
    from find_Some_in[OF Some] have f: "f \<in> set coll" "ff f = lf x" by simp_all
    have "f' = f" if "f' \<in> set coll" "ff f' = lf x" for f'
    proof -
      from assms have "inj_on ff (set coll)" by (simp add: distinct_map)
      moreover have "ff f' = ff f" using that(2) f(2) by simp
      ultimately show ?thesis using that(1) f(1) by (rule inj_onD)
    qed
    with f have "(\<exists>f' \<in> set coll. ff f' = lf x \<and> P f') \<longleftrightarrow> P f" by blast
    with Some show ?thesis by (simp add: filter_key_distinct[OF assms])
  qed
  show ?case unfolding step using Cons one by simp
qed

lemma categoryRows_unresolved:
  assumes ps: "distinct (map p_id ps)"
    and un: "\<forall>c \<in> set cs. Some (c_id c) \<noteq> \<kappa>"
    and i: "i \<in> set lines" and p: "p \<in> set ps" "p_id p = product_id i" "category_id p = \<kappa>"
  defines "mine \<equiv> filter (\<lambda>j. \<exists>q \<in> set ps. p_id q = product_id j \<and> category_id q = \<kappa>) lines"
  shows "\<exists>r \<in> set (categoryRows lines ps cs). key r = \<kappa> \<and> categoryName r = sansCategorie
           \<and> orderCount r = length mine
           \<and> totalAmount r = sum_list (map total_price_ttc mine)"
proof -
  define J1 where "J1 = lookup_unwind product_id p_id ps lines"
  define J2 where "J2 = lookup_unwind_preserve (\<lambda>x. category_id (snd x)) c_id cs J1"
  define g1 where "g1 = filter (\<lambda>x. category_id (snd x) = \<kappa>) J1"
  define g where "g = filter (\<lambda>x. category_id (snd (fst x)) = \<kappa>) J2"
  define r :: categoryRow where "r =
     \<lparr>totalAmount = sum_list (map (\<lambda>x. total_price_ttc (fst (fst x))) g),
      key = \<kappa>, orderCount = length g,
      categoryName = (case snd (hd g) of None \<Rightarrow> sansCategorie | Some c \<Rightarrow> c_name c)\<rparr>"
  have g: "g = map (\<lambda>x. (x, None)) g1"
    unfolding g_def g1_def J2_def by (rule unresolved_groups[OF un])
  have mine: "map fst g1 = mine"
    unfolding g1_def J1_def mine_def by (rule joined_with[OF ps])
  have "(i, p) \<in> set J1" using i p by (simp add: J1_def in_lookup_unwind)
  with p(3) have ip: "(i, p) \<in> set g1" by (simp add: g1_def)
  then have ne: "g1 \<noteq> []" by auto
  from ip have "((i, p), None) \<in> set g" by (auto simp: g)
  then have "((i, p), None) \<in> set J2" by (simp add: g_def)
  then have "\<kappa> \<in> (\<lambda>x. category_id (snd (fst x))) ` set J2"
    using p(3) by force
  then have "r \<in> set (categoryRows lines ps cs)"
    unfolding categoryRows_def J1_def[symmetric] J2_def[symmetric] set_sort in_grouped_rows
      r_def g_def
    by blast
  moreover have "categoryName r = sansCategorie"
    using ne by (simp add: r_def g hd_map)
  moreover have "orderCount r = length mine"
    using arg_cong[OF mine, of length] by (simp add: r_def g)
  moreover have "totalAmount r = sum_list (map total_price_ttc mine)"
    by (simp add: r_def g mine[symmetric] comp_def)
  moreover have "key r = \<kappa>" by (simp add: r_def)
  ultimately show ?thesis by blast
qed

lemma categoryRows_keys: "distinct (map key (categoryRows lines ps cs))"
proof -
  have "map key (map (\<lambda>(k, g).
              \<lparr>totalAmount = sum_list (map (\<lambda>x. total_price_ttc (fst (fst x))) g),
               key = k, orderCount = length g,
               categoryName = (case snd (hd g) of None \<Rightarrow> sansCategorie
                               | Some c \<Rightarrow> c_name c)\<rparr>) G)
        = map fst G" for G :: "(oid option \<times> ((item \<times> product) \<times> category option) list) list"
    by (simp add: comp_def case_prod_unfold)
  then show ?thesis
    by (simp add: categoryRows_def distinct_map_sort_key group_by_def comp_def)
qed

text \<open>
  C2. For a request with a linked shop and a year, over a product collection with
  unique identifiers: a line item inside the window whose product record has a null
  category identifier, or a category identifier without category record, is counted
  in exactly one row of the category report. That row is the one whose identifier is
  the product's category identifier, it is named \<open>sansCategorie\<close>, and its
  \<open>orderCount\<close> and \<open>totalAmount\<close> cover all line items whose product has that same
  category identifier. So the line items with a null category identifier share one row,
  and the line items of each missing category record share one row of their own.
\<close>

theorem getShopCategoryStats_uncategorized:
  fixes rt :: runtime and d :: db
  assumes "user_shop_id req = Some shopId" and "year req = Some y" and "y \<noteq> []"
    and "distinct (map p_id (products d))"
  defines "lines \<equiv>
     concat (map items
       (filter (\<lambda>od. shop_id od = shopId \<and> startOfYear rt y \<le> created_at od
                    \<and> created_at od \<le> endOfYear rt y) (orders d)))"
  shows "\<exists>rows. getShopCategoryStats rt d req = Status200 rows
     \<and> distinct (map key rows)
     \<and> (\<forall>i \<in> set lines. \<forall>p \<in> set (products d).
           p_id p = product_id i
           \<and> (\<forall>c \<in> set (categoryproducts d). Some (c_id c) \<noteq> category_id p)
         \<longrightarrow> (\<exists>r \<in> set rows. key r = category_id p \<and> categoryName r = sansCategorie
               \<and> orderCount r = length (filter (\<lambda>j. \<exists>q \<in> set (products d).
                     p_id q = product_id j \<and> category_id q = category_id p) lines)
               \<and> totalAmount r = sum_list (map total_price_ttc (filter (\<lambda>j. \<exists>q \<in> set (products d).
                     p_id q = product_id j \<and> category_id q = category_id p) lines))))"
proof -
  define rows where "rows = categoryRows lines (products d) (categoryproducts d)"
  have p: "present (year req) = Some y"
    using assms(2,3) by (simp add: present_eq_Some)
  have l: "concat (map items
             (filter (inRange shopId (startOfYear rt y) (endOfYear rt y)) (orders d))) = lines"
    by (simp add: lines_def inRange_fun)
  have r1: "getShopCategoryStats rt d req = Status200 rows"
    by (simp add: getShopCategoryStats_def assms(1) p categoryStats_items l rows_def)
  have r2: "distinct (map key rows)"
    unfolding rows_def by (rule categoryRows_keys)
  have r3: "\<exists>r \<in> set rows. key r = category_id p \<and> categoryName r = sansCategorie
               \<and> orderCount r = length (filter (\<lambda>j. \<exists>q \<in> set (products d).
                     p_id q = product_id j \<and> category_id q = category_id p) lines)
               \<and> totalAmount r = sum_list (map total_price_ttc (filter (\<lambda>j. \<exists>q \<in> set (products d).
                     p_id q = product_id j \<and> category_id q = category_id p) lines))"
    if "i \<in> set lines" "p \<in> set (products d)" "p_id p = product_id i"
      "\<forall>c \<in> set (categoryproducts d). Some (c_id c) \<noteq> category_id p" for i p
    unfolding rows_def
    by (rule categoryRows_unresolved[OF assms(4) that(4) that(1) that(2) that(3) refl])
  show ?thesis
  proof (intro exI conjI ballI impI)
    show "getShopCategoryStats rt d req = Status200 rows" by (rule r1)
    show "distinct (map key rows)" by (rule r2)
    show "\<exists>r \<in> set rows. key r = category_id p \<and> categoryName r = sansCategorie
               \<and> orderCount r = length (filter (\<lambda>j. \<exists>q \<in> set (products d).
                     p_id q = product_id j \<and> category_id q = category_id p) lines)
               \<and> totalAmount r = sum_list (map total_price_ttc (filter (\<lambda>j. \<exists>q \<in> set (products d).
                     p_id q = product_id j \<and> category_id q = category_id p) lines))"
      if "i \<in> set lines" "p \<in> set (products d)"
        "p_id p = product_id i
           \<and> (\<forall>c \<in> set (categoryproducts d). Some (c_id c) \<noteq> category_id p)" for i p
      using r3[OF that(1,2)] that(3) by blast
  qed
qed

theorem getShopCategoryStats_uncategorized_witness:
  "\<exists>rows. getShopCategoryStats sampleRuntime sampleDb (yearRequest ''2024'') = Status200 rows
     \<and> distinct (map key rows)
     \<and> (\<exists>r \<in> set rows. key r = None \<and> categoryName r = sansCategorie
           \<and> orderCount r = 2 \<and> totalAmount r = 8)
     \<and> (\<exists>r \<in> set rows. key r = Some 999 \<and> categoryName r = sansCategorie
           \<and> orderCount r = 1 \<and> totalAmount r = 30)"
proof -
  define L where "L =
       [\<lparr>product_id = 100, name = ''Old name'', total_price_ttc = 4\<rparr>,
        \<lparr>product_id = 101, name = ''Loose'', total_price_ttc = 6\<rparr>,
        \<lparr>product_id = 100, name = ''New name'', total_price_ttc = 15\<rparr>,
        \<lparr>product_id = 103, name = ''Ghost'', total_price_ttc = 5\<rparr>,
        \<lparr>product_id = 102, name = ''Dangling'', total_price_ttc = 30\<rparr>,
        \<lparr>product_id = 105, name = ''Odd'', total_price_ttc = 2\<rparr>]"
  have a: "user_shop_id (yearRequest ''2024'') = Some 1"
    "year (yearRequest ''2024'') = Some ''2024''" "''2024'' \<noteq> []"
    "distinct (map p_id (products sampleDb))"
    by (simp_all add: yearRequest_def sampleDb_def)
  have l: "concat (map items
       (filter (\<lambda>od. shop_id od = 1 \<and> startOfYear sampleRuntime ''2024'' \<le> created_at od
                    \<and> created_at od \<le> endOfYear sampleRuntime ''2024'') (orders sampleDb)))
     = L"
    by (simp add: sample_defs startOfYear_def endOfYear_def L_def)
  from getShopCategoryStats_uncategorized[OF a, where rt = sampleRuntime, unfolded l]
  obtain rows where
    r: "getShopCategoryStats sampleRuntime sampleDb (yearRequest ''2024'') = Status200 rows"
    and k: "distinct (map key rows)"
    and u: "\<forall>i \<in> set L. \<forall>p \<in> set (products sampleDb).
           p_id p = product_id i
           \<and> (\<forall>c \<in> set (categoryproducts sampleDb). Some (c_id c) \<noteq> category_id p)
         \<longrightarrow> (\<exists>r \<in> set rows. key r = category_id p \<and> categoryName r = sansCategorie
               \<and> orderCount r = length (filter (\<lambda>j. \<exists>q \<in> set (products sampleDb).
                     p_id q = product_id j \<and> category_id q = category_id p) L)
               \<and> totalAmount r = sum_list (map total_price_ttc (filter (\<lambda>j. \<exists>q \<in> set (products sampleDb).
                     p_id q = product_id j \<and> category_id q = category_id p) L)))"
    by (elim exE conjE)
  have i1: "\<lparr>product_id = 101, name = ''Loose'', total_price_ttc = 6\<rparr> \<in> set L"
    and i2: "\<lparr>product_id = 102, name = ''Dangling'', total_price_ttc = 30\<rparr> \<in> set L"
    by (simp_all add: L_def)
  have p1: "\<lparr>p_id = 101, category_id = None\<rparr> \<in> set (products sampleDb)"
    and p2: "\<lparr>p_id = 102, category_id = Some 999\<rparr> \<in> set (products sampleDb)"
    by (simp_all add: sampleDb_def)
  from u[rule_format, OF i1 p1]
  have n: "\<exists>r \<in> set rows. key r = None \<and> categoryName r = sansCategorie
           \<and> orderCount r = 2 \<and> totalAmount r = 8"
    by (simp add: sampleDb_def L_def numeral_2_eq_2)
  from u[rule_format, OF i2 p2]
  have s: "\<exists>r \<in> set rows. key r = Some 999 \<and> categoryName r = sansCategorie
           \<and> orderCount r = 1 \<and> totalAmount r = 30"
    by (simp add: sampleDb_def L_def)
  show ?thesis using r k n s by (intro exI[of _ rows] conjI)
qed

text \<open>
  In the sample data the report for 2024 has two rows named \<open>sansCategorie\<close>: one for
  the missing category record 999 and one for the products without category.
\<close>

theorem uncategorized_split_counterexample:
  "getShopCategoryStats sampleRuntime sampleDb (yearRequest ''2024'') =
     Status200
       [\<lparr>totalAmount = 30, key = Some 999, orderCount = 1, categoryName = sansCategorie\<rparr>,
        \<lparr>totalAmount = 19, key = Some 500, orderCount = 2, categoryName = ''Books''\<rparr>,
        \<lparr>totalAmount = 8, key = None, orderCount = 2, categoryName = sansCategorie\<rparr>]"
  by code_simp

text \<open>
  C10. For a request with a linked shop and a year, a line item whose product
  identifier matches no product record takes no part in the category report: the
  report is the same as over the orders with these line items removed, every row of it
  comes from a line item with a product record, and the report is empty when no line
  item inside the window has one.
\<close>

theorem getShopCategoryStats_unmatched_product:
  fixes rt :: runtime and d :: db
  assumes "user_shop_id req = Some shopId" and "year req = Some y" and "y \<noteq> []"
  defines "lines \<equiv>
     concat (map items
       (filter (\<lambda>od. shop_id od = shopId \<and> startOfYear rt y \<le> created_at od
                    \<and> created_at od \<le> endOfYear rt y) (orders d)))"
  shows "\<exists>rows. getShopCategoryStats rt d req = Status200 rows
     \<and> getShopCategoryStats rt
          (d\<lparr>orders := map (\<lambda>od. od\<lparr>items :=
                 filter (\<lambda>i. product_id i \<in> p_id ` set (products d)) (items od)\<rparr>) (orders d)\<rparr>)
          req = Status200 rows
     \<and> (\<forall>r \<in> set rows. \<exists>i \<in> set lines. \<exists>p \<in> set (products d).
           p_id p = product_id i \<and> category_id p = key r)
     \<and> ((\<forall>i \<in> set lines. product_id i \<notin> p_id ` set (products d)) \<longrightarrow> rows = [])"
proof -
  define rows where "rows = categoryRows lines (products d) (categoryproducts d)"
  have p: "present (year req) = Some y"
    using assms(2,3) by (simp add: present_eq_Some)
  have l: "concat (map items
             (filter (inRange shopId (startOfYear rt y) (endOfYear rt y)) (orders d))) = lines"
    by (simp add: lines_def inRange_fun)
  have r1: "getShopCategoryStats rt d req = Status200 rows"
    by (simp add: getShopCategoryStats_def assms(1) p categoryStats_items l rows_def)
  have r2: "getShopCategoryStats rt
          (d\<lparr>orders := map (\<lambda>od. od\<lparr>items :=
                 filter (\<lambda>i. product_id i \<in> p_id ` set (products d)) (items od)\<rparr>) (orders d)\<rparr>)
          req = Status200 rows"
    by (simp add: getShopCategoryStats_def assms(1) p categoryStats_items lines_of_pruned l
        categoryRows_matched rows_def)
  have r3: "\<forall>r \<in> set rows. \<exists>i \<in> set lines. \<exists>p \<in> set (products d).
           p_id p = product_id i \<and> category_id p = key r"
    unfolding rows_def using categoryRows_origin by blast
  have r4: "rows = []" if "\<forall>i \<in> set lines. product_id i \<notin> p_id ` set (products d)"
  proof (cases rows)
    case Nil
    then show ?thesis .
  next
    case (Cons r rs)
    with r3 obtain i p where "i \<in> set lines" "p \<in> set (products d)" "p_id p = product_id i"
      by fastforce
    with that show ?thesis by force
  qed
  from r1 r2 r3 r4 show ?thesis by blast
qed

theorem getShopCategoryStats_unmatched_product_witness:
  "\<exists>rows. getShopCategoryStats sampleRuntime sampleDb (yearRequest ''2024'') = Status200 rows
     \<and> getShopCategoryStats sampleRuntime
          (sampleDb\<lparr>orders := map (\<lambda>od. od\<lparr>items :=
                 filter (\<lambda>i. product_id i \<in> {100, 101, 102, 104, 105}) (items od)\<rparr>)
               (orders sampleDb)\<rparr>)
          (yearRequest ''2024'') = Status200 rows
     \<and> map key rows = [Some 999, Some 500, None]
     \<and> map orderCount rows = [1, 2, 2]"
proof -
  have a: "user_shop_id (yearRequest ''2024'') = Some 1"
    "year (yearRequest ''2024'') = Some ''2024''" "''2024'' \<noteq> []"
    by (simp_all add: yearRequest_def)
  have ps: "p_id ` set (products sampleDb) = {100, 101, 102, 104, 105}"
    by (simp add: sampleDb_def)
  have ev: "getShopCategoryStats sampleRuntime sampleDb (yearRequest ''2024'') =
     Status200
       [\<lparr>totalAmount = 30, key = Some 999, orderCount = 1, categoryName = sansCategorie\<rparr>,
        \<lparr>totalAmount = 19, key = Some 500, orderCount = 2, categoryName = ''Books''\<rparr>,
        \<lparr>totalAmount = 8, key = None, orderCount = 2, categoryName = sansCategorie\<rparr>]"
    by code_simp
  from getShopCategoryStats_unmatched_product[OF a, where rt = sampleRuntime and d = sampleDb,
      unfolded ps]
  obtain rows where
    r: "getShopCategoryStats sampleRuntime sampleDb (yearRequest ''2024'') = Status200 rows"
      "getShopCategoryStats sampleRuntime
          (sampleDb\<lparr>orders := map (\<lambda>od. od\<lparr>items :=
                 filter (\<lambda>i. product_id i \<in> {100, 101, 102, 104, 105}) (items od)\<rparr>)
               (orders sampleDb)\<rparr>)
          (yearRequest ''2024'') = Status200 rows"
    by (elim exE conjE)
  from r(1) ev have k: "map key rows = [Some 999, Some 500, None]"
    "map orderCount rows = [1, 2, 2]"
    by auto
  show ?thesis using r k by (intro exI[of _ rows] conjI)
qed

section \<open>Validation of the year parameter\<close>

text \<open>
  C3. A request whose year parameter is missing or empty is answered by the product,
  category and global reports with status 400 and a message (\<open>Year is required\<close>, or
  \<open>No shop linked to this account\<close> when the shop is missing as well); the answer
  does not depend on the stored data. A request with a linked shop and any non-empty
  year, numeric or not, is not answered with a client error.
\<close>

theorem year_validation:
  "(year req = None \<or> year req = Some [] \<longrightarrow>
      getShopProductStats rt d req =
        Status400 (if user_shop_id req = None then ''No shop linked to this account''
                   else ''Year is required'')
      \<and> getShopCategoryStats rt d req =
        Status400 (if user_shop_id req = None then ''No shop linked to this account''
                   else ''Year is required'')
      \<and> getShopGlobalStats rt d req =
        Status400 (if user_shop_id req = None then ''No shop linked to this account''
                   else ''Year is required''))
   \<and> (user_shop_id req = Some shopId \<and> year req = Some (c # cs) \<longrightarrow>
      \<not> isClientError (getShopProductStats rt d req)
      \<and> \<not> isClientError (getShopCategoryStats rt d req)
      \<and> \<not> isClientError (getShopGlobalStats rt d req))"
proof (intro conjI impI)
  assume "year req = None \<or> year req = Some []"
  then have p: "present (year req) = None" by (simp add: present_eq_None)
  show "getShopProductStats rt d req =
        Status400 (if user_shop_id req = None then ''No shop linked to this account''
                   else ''Year is required'')"
    by (cases "user_shop_id req") (simp_all add: getShopProductStats_def p)
  show "getShopCategoryStats rt d req =
        Status400 (if user_shop_id req = None then ''No shop linked to this account''
                   else ''Year is required'')"
    by (cases "user_shop_id req") (simp_all add: getShopCategoryStats_def p)
  show "getShopGlobalStats rt d req =
        Status400 (if user_shop_id req = None then ''No shop linked to this account''
                   else ''Year is required'')"
    by (cases "user_shop_id req") (simp_all add: getShopGlobalStats_def p)
next
  assume a: "user_shop_id req = Some shopId \<and> year req = Some (c # cs)"
  have p: "present (Some (c # cs)) = Some (c # cs)" by (simp add: present_def)
  show "\<not> isClientError (getShopProductStats rt d req)"
    using a by (simp add: getShopProductStats_def p)
  show "\<not> isClientError (getShopCategoryStats rt d req)"
    using a by (simp add: getShopCategoryStats_def p)
  show "\<not> isClientError (getShopGlobalStats rt d req)"
    using a by (simp add: getShopGlobalStats_def p Let_def)
qed

theorem year_validation_witness:
  "getShopProductStats sampleRuntime sampleDb
       \<lparr>user_shop_id = Some 1, startDate = None, endDate = None, year = None\<rparr>
     = Status400 ''Year is required''
   \<and> getShopCategoryStats sampleRuntime sampleDb
       \<lparr>user_shop_id = Some 1, startDate = None, endDate = None, year = Some []\<rparr>
     = Status400 ''Year is required''
   \<and> getShopGlobalStats sampleRuntime sampleDb
       \<lparr>user_shop_id = None, startDate = None, endDate = None, year = None\<rparr>
     = Status400 ''No shop linked to this account''
   \<and> \<not> isClientError (getShopGlobalStats sampleRuntime sampleDb (yearRequest ''2024''))"
  using
    year_validation[of "\<lparr>user_shop_id = Some 1, startDate = None, endDate = None, year = None\<rparr>"
      sampleRuntime sampleDb]
    year_validation[of "\<lparr>user_shop_id = Some 1, startDate = None, endDate = None, year = Some []\<rparr>"
      sampleRuntime sampleDb]
    year_validation[of "\<lparr>user_shop_id = None, startDate = None, endDate = None, year = None\<rparr>"
      sampleRuntime sampleDb]
    year_validation[of "yearRequest ''2024''" sampleRuntime sampleDb 1 "CHR ''2''" "''024''"]
  by (simp add: yearRequest_def)

text \<open>
  With the year \<open>abc\<close> and a linked shop, none of the three reports answers with a
  client error: each goes on to its queries.
\<close>

theorem non_numeric_year_counterexample:
  "\<not> isClientError (getShopProductStats sampleRuntime sampleDb (yearRequest ''abc''))
   \<and> \<not> isClientError (getShopCategoryStats sampleRuntime sampleDb (yearRequest ''abc''))
   \<and> \<not> isClientError (getShopGlobalStats sampleRuntime sampleDb (yearRequest ''abc''))"
  by (simp add: getShopProductStats_def getShopCategoryStats_def getShopGlobalStats_def
      yearRequest_def present_def Let_def)

section \<open>Windows without orders\<close>

text \<open>
  C8. For a request with a linked shop and the parameters of its report, when no order
  of the shop lies inside the window: the order summary is all zeros, both top-clients
  views, the product report and the category report are empty, and the global report
  has \<open>totalOrders\<close>, \<open>totalAmount\<close> and \<open>totalCustomers\<close> equal to 0. Each diff of the
  global report is 0 when the value of the year before is 0 as well and -100 otherwise;
  so all three are 0 when the year before has no orders of the shop either. No report
  answers with an error.
\<close>

theorem empty_window_reports:
  fixes rt :: runtime and d :: db
  defines "inside \<equiv> \<lambda>shopId a b od.
     shop_id od = shopId \<and> (a :: instant) \<le> created_at od \<and> created_at od \<le> b"
  assumes "user_shop_id req = Some shopId"
  shows "(startDate req = Some sd \<and> sd \<noteq> [] \<and> endDate req = Some ed \<and> ed \<noteq> []
          \<and> filter (inside shopId (newDate rt sd) (setHoursEnd rt (newDate rt ed))) (orders d) = []
        \<longrightarrow> getShopOrderSummary rt d req =
              Status200 \<lparr>totalAmount = 0, totalOrders = 0, pendingOrders = 0,
                         confirmedOrders = 0\<rparr>
            \<and> getShopTopClients rt d req = Status200 \<lparr>topByCount = [], topByAmount = []\<rparr>)
     \<and> (year req = Some y \<and> y \<noteq> []
          \<and> filter (inside shopId (startOfYear rt y) (endOfYear rt y)) (orders d) = []
        \<longrightarrow> getShopProductStats rt d req = Status200 []
            \<and> getShopCategoryStats rt d req = Status200 []
            \<and> (\<exists>g. getShopGlobalStats rt d req = Status200 g
                 \<and> totalOrders g = 0 \<and> totalAmount g = 0 \<and> totalCustomers g = 0
                 \<and> ordersDiff g = (if filter (inside shopId (startOfYear rt (prevYear y))
                                        (endOfYear rt (prevYear y))) (orders d) = []
                                    then 0 else - 100)
                 \<and> customersDiff g = (if filter (inside shopId (startOfYear rt (prevYear y))
                                        (endOfYear rt (prevYear y))) (orders d) = []
                                    then 0 else - 100)
                 \<and> amountDiff g = (if sum_list (map amounts_total
                                         (filter (inside shopId (startOfYear rt (prevYear y))
                                            (endOfYear rt (prevYear y))) (orders d))) = 0
                                    then 0 else - 100)))"
proof (intro conjI impI)
  have ins: "inside shopId a b = inRange shopId a b" for a b
    by (simp add: inside_def inRange_fun)
  assume r: "startDate req = Some sd \<and> sd \<noteq> [] \<and> endDate req = Some ed \<and> ed \<noteq> []
          \<and> filter (inside shopId (newDate rt sd) (setHoursEnd rt (newDate rt ed))) (orders d) = []"
  then have p: "present (startDate req) = Some sd" "present (endDate req) = Some ed"
    by (simp_all add: present_eq_Some)
  from r have e: "filter (inRange shopId (newDate rt sd) (setHoursEnd rt (newDate rt ed)))
                    (orders d) = []"
    by (simp add: ins)
  have "\<not> matchStage shopId (newDate rt sd) (setHoursEnd rt (newDate rt ed)) od"
    if "od \<in> set (orders d)" for od
    using e that by (auto simp: filter_empty_conv matchStage_def inRange_def)
  then have m: "filter (matchStage shopId (newDate rt sd) (setHoursEnd rt (newDate rt ed)))
                  (orders d) = []"
    by (simp add: filter_empty_conv)
  show "getShopOrderSummary rt d req =
              Status200 \<lparr>totalAmount = 0, totalOrders = 0, pendingOrders = 0,
                         confirmedOrders = 0\<rparr>"
    unfolding getShopOrderSummary_def Let_def
    by (simp add: assms(2) p e group_null_amount group_null_orders orZero_statusMap)
  show "getShopTopClients rt d req = Status200 \<lparr>topByCount = [], topByAmount = []\<rparr>"
    by (simp add: getShopTopClients_def Let_def assms(2) p topByCountPipeline_def
        topByAmountPipeline_def m groupByBuyer_def group_by_def joinUsers_def lookup_unwind_def)
next
  have ins: "inside shopId a b = inRange shopId a b" for a b
    by (simp add: inside_def inRange_fun)
  assume r: "year req = Some y \<and> y \<noteq> []
          \<and> filter (inside shopId (startOfYear rt y) (endOfYear rt y)) (orders d) = []"
  then have p: "present (year req) = Some y" by (simp add: present_eq_Some)
  from r have e: "filter (inRange shopId (startOfYear rt y) (endOfYear rt y)) (orders d) = []"
    by (simp add: ins)
  show "getShopProductStats rt d req = Status200 []"
    by (simp add: getShopProductStats_def assms(2) p productStatsPipeline_def e
        unwind_items_def group_by_def)
  show "getShopCategoryStats rt d req = Status200 []"
    by (simp add: getShopCategoryStats_def assms(2) p categoryStats_items e categoryRows_def
        lookup_unwind_def lookup_unwind_preserve_def group_by_def)
  define prev where "prev = filter (inRange shopId (startOfYear rt (prevYear y))
                              (endOfYear rt (prevYear y))) (orders d)"
  define g where "g =
     \<lparr>totalAmount = 0, totalOrders = 0,
      ordersDiff = calculatePercentageDiff 0 (of_nat (length prev)),
      amountDiff = calculatePercentageDiff 0 (sum_list (map amounts_total prev)),
      avgRating = (case find (\<lambda>s. s_id s = shopId) (shops d) of
                     None \<Rightarrow> 0 | Some s \<Rightarrow> avg_rating s),
      countRating = (case find (\<lambda>s. s_id s = shopId) (shops d) of
                       None \<Rightarrow> 0 | Some s \<Rightarrow> count_rating s),
      totalCustomers = 0,
      customersDiff = calculatePercentageDiff 0 (of_nat (card (buyer_id ` set prev)))\<rparr>"
  have resp: "getShopGlobalStats rt d req = Status200 g"
    unfolding getShopGlobalStats_def Let_def
    by (simp add: assms(2) p e prev_def[symmetric] distinctBuyers_def length_uniq
        group_null_amount group_null_orders findById_def g_def)
  have c: "card (buyer_id ` set prev) = 0 \<longleftrightarrow> prev = []" by simp
  show "\<exists>g. getShopGlobalStats rt d req = Status200 g
                 \<and> totalOrders g = 0 \<and> totalAmount g = 0 \<and> totalCustomers g = 0
                 \<and> ordersDiff g = (if filter (inside shopId (startOfYear rt (prevYear y))
                                        (endOfYear rt (prevYear y))) (orders d) = []
                                    then 0 else - 100)
                 \<and> customersDiff g = (if filter (inside shopId (startOfYear rt (prevYear y))
                                        (endOfYear rt (prevYear y))) (orders d) = []
                                    then 0 else - 100)
                 \<and> amountDiff g = (if sum_list (map amounts_total
                                         (filter (inside shopId (startOfYear rt (prevYear y))
                                            (endOfYear rt (prevYear y))) (orders d))) = 0
                                    then 0 else - 100)"
    unfolding ins prev_def[symmetric]
    using resp c by (intro exI[of _ g]) (simp add: g_def diff_from_zero)
qed

theorem empty_window_reports_witness:
  "getShopOrderSummary sampleRuntime sampleDb (rangeRequest ''2025-01-01'' ''2025-12-31'') =
     Status200 \<lparr>totalAmount = 0, totalOrders = 0, pendingOrders = 0, confirmedOrders = 0\<rparr>
   \<and> getShopTopClients sampleRuntime sampleDb (rangeRequest ''2025-01-01'' ''2025-12-31'') =
     Status200 \<lparr>topByCount = [], topByAmount = []\<rparr>
   \<and> getShopProductStats sampleRuntime sampleDb (yearRequest ''2025'') = Status200 []
   \<and> getShopCategoryStats sampleRuntime sampleDb (yearRequest ''2025'') = Status200 []
   \<and> (\<exists>g. getShopGlobalStats sampleRuntime sampleDb (yearRequest ''2025'') = Status200 g
         \<and> totalOrders g = 0 \<and> totalAmount g = 0 \<and> totalCustomers g = 0
         \<and> ordersDiff g = - 100 \<and> customersDiff g = - 100 \<and> amountDiff g = - 100)
   \<and> (\<exists>g. getShopGlobalStats sampleRuntime fiveOrdersDb (yearRequest ''2023'') = Status200 g
         \<and> totalOrders g = 0 \<and> totalAmount g = 0 \<and> totalCustomers g = 0
         \<and> ordersDiff g = 0 \<and> customersDiff g = 0 \<and> amountDiff g = 0)"
proof -
  have a: "user_shop_id (rangeRequest ''2025-01-01'' ''2025-12-31'') = Some 1"
    "user_shop_id (yearRequest y) = Some 1" for y
    by (simp_all add: rangeRequest_def yearRequest_def)
  have py: "prevYear ''2025'' = ''2024''" "prevYear ''2023'' = ''2022''" by code_simp+
  have range: "getShopOrderSummary sampleRuntime sampleDb (rangeRequest ''2025-01-01'' ''2025-12-31'') =
     Status200 \<lparr>totalAmount = 0, totalOrders = 0, pendingOrders = 0, confirmedOrders = 0\<rparr>
   \<and> getShopTopClients sampleRuntime sampleDb (rangeRequest ''2025-01-01'' ''2025-12-31'') =
     Status200 \<lparr>topByCount = [], topByAmount = []\<rparr>"
    using empty_window_reports[OF a(1), where rt = sampleRuntime and d = sampleDb
        and sd = "''2025-01-01''" and ed = "''2025-12-31''"]
    by (simp add: rangeRequest_def sampleRuntime_def sampleDate_def sampleDb_def
        sampleOrders_def)
  have y25: "getShopProductStats sampleRuntime sampleDb (yearRequest ''2025'') = Status200 []
   \<and> getShopCategoryStats sampleRuntime sampleDb (yearRequest ''2025'') = Status200 []
   \<and> (\<exists>g. getShopGlobalStats sampleRuntime sampleDb (yearRequest ''2025'') = Status200 g
         \<and> totalOrders g = 0 \<and> totalAmount g = 0 \<and> totalCustomers g = 0
         \<and> ordersDiff g = - 100 \<and> customersDiff g = - 100 \<and> amountDiff g = - 100)"
    using empty_window_reports[OF a(2), where rt = sampleRuntime and d = sampleDb
        and y = "''2025''"]
    by (simp add: py yearRequest_def sampleRuntime_def sampleDate_def sampleDb_def
        sampleOrders_def startOfYear_def endOfYear_def)
  have y23: "\<exists>g. getShopGlobalStats sampleRuntime fiveOrdersDb (yearRequest ''2023'') = Status200 g
         \<and> totalOrders g = 0 \<and> totalAmount g = 0 \<and> totalCustomers g = 0
         \<and> ordersDiff g = 0 \<and> customersDiff g = 0 \<and> amountDiff g = 0"
    using empty_window_reports[OF a(2), where rt = sampleRuntime and d = fiveOrdersDb
        and y = "''2023''"]
    by (simp add: py yearRequest_def sampleRuntime_def sampleDate_def fiveOrdersDb_def
        orderAt_def startOfYear_def endOfYear_def)
  from range y25 y23 show ?thesis by (intro conjI) simp_all
qed

text \<open>
  The sample shop has no order in 2025 and three orders in 2024: the global report for
  2025 has zero totals and all three diffs equal to -100.
\<close>

theorem global_empty_window_counterexample:
  "getShopGlobalStats sampleRuntime sampleDb (yearRequest ''2025'') =
     Status200 \<lparr>totalAmount = 0, totalOrders = 0, ordersDiff = - 100, amountDiff = - 100,
                avgRating = 9 / 2, countRating = 12, totalCustomers = 0,
                customersDiff = - 100\<rparr>"
  by code_simp

end
